theory Spec2Isabelle
  imports Complex_Main "HOL-Library.Sublist"
begin

section \<open>JavaScript strings and arrays\<close>

text \<open>
  A JavaScript string is modelled as a \<^typ>\<open>string\<close>: one \<^typ>\<open>char\<close> per UTF-16 code
  unit, for the code units below 256. The methods below are the ones the source calls
  on strings and arrays.
\<close>

definition startsWith :: "string \<Rightarrow> string \<Rightarrow> bool" where
  "startsWith s p = prefix p s"

definition endsWith :: "string \<Rightarrow> string \<Rightarrow> bool" where
  "endsWith s p = suffix p s"

text \<open>\<open>s.indexOf(t)\<close>: the first position at which \<open>t\<close> occurs in \<open>s\<close>, or \<open>-1\<close>.\<close>

fun indexOf :: "string \<Rightarrow> string \<Rightarrow> int" where
  "indexOf [] t = (if t = [] then 0 else -1)"
| "indexOf (c # s) t =
     (if prefix t (c # s) then 0
      else (let i = indexOf s t in if i < 0 then -1 else i + 1))"

text \<open>\<open>xs.indexOf(x)\<close> on an array.\<close>

fun array_indexOf :: "'a list \<Rightarrow> 'a \<Rightarrow> int" where
  "array_indexOf [] x = -1"
| "array_indexOf (y # ys) x =
     (if y = x then 0
      else (let i = array_indexOf ys x in if i < 0 then -1 else i + 1))"

text \<open>
  \<open>s.split(sep)\<close> for a one-character separator: the pieces between the occurrences of
  the separator, so the empty string gives one empty piece.
\<close>

fun split :: "string \<Rightarrow> char \<Rightarrow> string list" where
  "split [] sep = [[]]"
| "split (c # s) sep =
     (if c = sep then [] # split s sep
      else (case split s sep of
              [] \<Rightarrow> [[c]]
            | piece # pieces \<Rightarrow> (c # piece) # pieces))"

text \<open>\<open>parts.join(sep)\<close>.\<close>

fun join :: "string list \<Rightarrow> string \<Rightarrow> string" where
  "join [] sep = []"
| "join [p] sep = p"
| "join (p # q # ps) sep = p @ sep @ join (q # ps) sep"

text \<open>
  \<open>parts.pop()\<close>: the last element, \<open>undefined\<close> (here \<open>None\<close>) on an empty array, and
  the array without it.
\<close>

definition pop :: "'a list \<Rightarrow> 'a option \<times> 'a list" where
  "pop xs = (if xs = [] then (None, []) else (Some (last xs), butlast xs))"

section \<open>SpecifierParser: \<open>getDependencyAndVersion\<close>\<close>

text \<open>
  The object \<open>{ dependency, version }\<close> it returns is the pair of the two; the version
  is what \<open>pop\<close> gave, so its type allows \<open>undefined\<close>.
\<close>

definition getDependencyAndVersion :: "string \<Rightarrow> string \<times> string option" where
  "getDependencyAndVersion depString =
     (if (startsWith depString ''@'' \<and> length (split depString CHR ''@'') = 2)
         \<or> length (split depString CHR ''@'') = 1
      then (depString, Some ''latest'')
      else (let parts = split depString CHR ''@'';
                (version, parts) = pop parts
            in (join parts ''@'', version)))"

section \<open>TreeScanner: \<open>isFileValid\<close>\<close>

definition TYPE_ONLY_DIRECTORIES :: "string list" where
  "TYPE_ONLY_DIRECTORIES = [''src'']"

definition isFileValid :: "string \<Rightarrow> bool" where
  "isFileValid path =
     (let isTypeOnly = list_ex (\<lambda>dir. indexOf path (''/'' @ dir @ ''/'') > -1)
                         TYPE_ONLY_DIRECTORIES;
          requiredEnding = (if isTypeOnly then ''.d.ts'' else ''.ts'')
      in if endsWith path requiredEnding then True
         else if endsWith path ''package.json'' then True
         else False)"

section \<open>JavaScript objects and \<open>JSON.stringify\<close>\<close>

text \<open>
  The values the pipeline stores in its file mappings: strings and objects whose own
  properties are kept in insertion order (no key of the pipeline is an array index).
  \<open>Undefined\<close> is what reading a missing property gives.
\<close>

datatype jsval = Undefined | Str string | Obj "(string \<times> jsval) list"

type_synonym files = "(string \<times> jsval) list"

text \<open>\<open>Object.keys(o)\<close>, \<open>o[k]\<close> and \<open>o[k] = v\<close> (also the effect of \<open>{...o, [k]: v}\<close>).\<close>

definition keys :: "(string \<times> 'v) list \<Rightarrow> string list" where
  "keys obj = map fst obj"

definition obj_get :: "files \<Rightarrow> string \<Rightarrow> jsval" where
  "obj_get obj k = (case map_of obj k of None \<Rightarrow> Undefined | Some v \<Rightarrow> v)"

fun obj_set :: "(string \<times> 'v) list \<Rightarrow> string \<Rightarrow> 'v \<Rightarrow> (string \<times> 'v) list" where
  "obj_set [] k v = [(k, v)]"
| "obj_set ((k', v') # ps) k v =
     (if k' = k then (k, v) # ps else (k', v') # obj_set ps k v)"

text \<open>\<open>{...a, ...b}\<close>: the properties of \<open>b\<close> are assigned onto \<open>a\<close> in order.\<close>

definition spread :: "(string \<times> 'v) list \<Rightarrow> (string \<times> 'v) list \<Rightarrow> (string \<times> 'v) list" where
  "spread a b = fold (\<lambda>(k, v) acc. obj_set acc k v) b a"

text \<open>
  \<open>JSON.stringify\<close> quotes a string and escapes the quotation mark, the backslash and
  the control characters; every other code unit stands for itself.
\<close>

definition hex_digit :: "nat \<Rightarrow> char" where
  "hex_digit n = (''0123456789abcdef'' ! (n mod 16))"

definition escape_char :: "char \<Rightarrow> string" where
  "escape_char c =
     (if c = CHR 0x22 then [CHR 0x5C, CHR 0x22]
      else if c = CHR 0x5C then [CHR 0x5C, CHR 0x5C]
      else if c = CHR 0x08 then [CHR 0x5C, CHR ''b'']
      else if c = CHR 0x0C then [CHR 0x5C, CHR ''f'']
      else if c = CHR 0x0A then [CHR 0x5C, CHR ''n'']
      else if c = CHR 0x0D then [CHR 0x5C, CHR ''r'']
      else if c = CHR 0x09 then [CHR 0x5C, CHR ''t'']
      else if (of_char c :: nat) < 0x20
        then [CHR 0x5C, CHR ''u'', CHR ''0'', CHR ''0'',
              hex_digit (of_char c div 16), hex_digit (of_char c)]
      else [c])"

definition quote :: "string \<Rightarrow> string" where
  "quote s = [CHR 0x22] @ concat (map escape_char s) @ [CHR 0x22]"

text \<open>
  A property whose value is \<open>undefined\<close> is left out of the serialised object;
  \<open>stringify\<close> gives \<open>None\<close> for it.
\<close>

fun stringify :: "jsval \<Rightarrow> string option"
  and stringify_props :: "(string \<times> jsval) list \<Rightarrow> string list" where
  "stringify Undefined = None"
| "stringify (Str s) = Some (quote s)"
| "stringify (Obj ps) = Some (''{'' @ join (stringify_props ps) '','' @ ''}'')"
| "stringify_props [] = []"
| "stringify_props ((k, v) # ps) =
     (case stringify v of
        None \<Rightarrow> stringify_props ps
      | Some t \<Rightarrow> (quote k @ '':'' @ t) # stringify_props ps)"

text \<open>\<open>JSON.stringify(o)\<close> for an object \<open>o\<close>; the source takes its \<open>length\<close>.\<close>

definition JSON_stringify :: "(string \<times> jsval) list \<Rightarrow> string" where
  "JSON_stringify ps = ''{'' @ join (stringify_props ps) '','' @ ''}''"

section \<open>Errors\<close>

text \<open>
  What the source can throw: \<open>JSON.parse\<close> on malformed text, a property read on
  \<open>null\<close>, a command of \<open>execSync\<close> that exits with a non-zero status, and the file
  system calls on a missing entry, through a file, or reading a directory as a file.
\<close>

datatype error = SyntaxError | TypeError | CommandFailed | ENOENT | ENOTDIR | EISDIR

section \<open>\<open>JSON.parse\<close>\<close>

text \<open>
  The parsed value. A string is a list of code units, since an escape \<open>\uXXXX\<close> can
  name any of them; a number is kept as mantissa and decimal exponent, \<open>JNumber m e\<close>
  standing for \<open>m * 10^e\<close>.
\<close>

datatype json =
    JNull
  | JBool bool
  | JNumber int int
  | JString "nat list"
  | JArray "json list"
  | JObject "(nat list \<times> json) list"

definition is_ws :: "char \<Rightarrow> bool" where
  "is_ws c = (c = CHR 0x20 \<or> c = CHR 0x09 \<or> c = CHR 0x0A \<or> c = CHR 0x0D)"

definition skip_ws :: "string \<Rightarrow> string" where
  "skip_ws cs = dropWhile is_ws cs"

definition is_digit :: "char \<Rightarrow> bool" where
  "is_digit c = (48 \<le> (of_char c :: nat) \<and> (of_char c :: nat) \<le> 57)"

definition digits_val :: "string \<Rightarrow> nat" where
  "digits_val ds = foldl (\<lambda>acc d. 10 * acc + (of_char d - 48)) 0 ds"

definition hex_val :: "char \<Rightarrow> nat option" where
  "hex_val c =
     (let n = (of_char c :: nat)
      in if 48 \<le> n \<and> n \<le> 57 then Some (n - 48)
         else if 97 \<le> n \<and> n \<le> 102 then Some (n - 87)
         else if 65 \<le> n \<and> n \<le> 70 then Some (n - 55)
         else None)"

definition simple_escape :: "char \<Rightarrow> nat option" where
  "simple_escape c =
     (if c = CHR 0x22 then Some 0x22
      else if c = CHR 0x5C then Some 0x5C
      else if c = CHR ''/'' then Some 0x2F
      else if c = CHR ''b'' then Some 0x08
      else if c = CHR ''f'' then Some 0x0C
      else if c = CHR ''n'' then Some 0x0A
      else if c = CHR ''r'' then Some 0x0D
      else if c = CHR ''t'' then Some 0x09
      else None)"

text \<open>The characters of a string after its opening quotation mark, up to the closing one.\<close>

fun parse_chars :: "string \<Rightarrow> (nat list \<times> string) option" where
  "parse_chars [] = None"
| "parse_chars (c # cs) =
     (if c = CHR 0x22 then Some ([], cs)
      else if c = CHR 0x5C then
        (case cs of
           [] \<Rightarrow> None
         | e # cs' \<Rightarrow>
             if e = CHR ''u'' then
               (case cs' of
                  h1 # h2 # h3 # h4 # cs'' \<Rightarrow>
                    (case (hex_val h1, hex_val h2, hex_val h3, hex_val h4) of
                       (Some a, Some b, Some c, Some d) \<Rightarrow>
                         map_option (\<lambda>(s, r). ((((a * 16 + b) * 16 + c) * 16 + d) # s, r))
                           (parse_chars cs'')
                     | _ \<Rightarrow> None)
                | _ \<Rightarrow> None)
             else
               (case simple_escape e of
                  None \<Rightarrow> None
                | Some u \<Rightarrow> map_option (\<lambda>(s, r). (u # s, r)) (parse_chars cs')))
      else if (of_char c :: nat) < 0x20 then None
      else map_option (\<lambda>(s, r). (of_char c # s, r)) (parse_chars cs))"

text \<open>
  A number: an optional minus sign, an integer part without a superfluous leading zero,
  an optional fraction, an optional exponent.
\<close>

definition parse_exponent :: "string \<Rightarrow> (int \<times> string) option" where
  "parse_exponent cs =
     (case cs of
        [] \<Rightarrow> Some (0, cs)
      | c # r \<Rightarrow>
          if c = CHR ''e'' \<or> c = CHR ''E'' then
            (let (neg, r1) =
                   (case r of
                      [] \<Rightarrow> (False, r)
                    | s # r' \<Rightarrow>
                        if s = CHR ''-'' then (True, r')
                        else if s = CHR ''+'' then (False, r')
                        else (False, r));
                 ds = takeWhile is_digit r1
             in if ds = [] then None
                else Some ((if neg then - int (digits_val ds) else int (digits_val ds)),
                           dropWhile is_digit r1))
          else Some (0, cs))"

definition parse_number :: "string \<Rightarrow> (json \<times> string) option" where
  "parse_number cs =
     (let (neg, cs1) =
            (case cs of
               [] \<Rightarrow> (False, cs)
             | c # r \<Rightarrow> if c = CHR ''-'' then (True, r) else (False, cs));
          ds = takeWhile is_digit cs1;
          r1 = dropWhile is_digit cs1
      in if ds = [] \<or> (length ds > 1 \<and> hd ds = CHR ''0'') then None
         else
           (let (fs, frac_ok, r2) =
                  (case r1 of
                     [] \<Rightarrow> ([], True, r1)
                   | c # r \<Rightarrow>
                       if c = CHR ''.''
                       then (takeWhile is_digit r, takeWhile is_digit r \<noteq> [],
                             dropWhile is_digit r)
                       else ([], True, r1))
            in if \<not> frac_ok then None
               else
                 (case parse_exponent r2 of
                    None \<Rightarrow> None
                  | Some (ex, r3) \<Rightarrow>
                      Some (JNumber
                              ((if neg then -1 else 1) * int (digits_val (ds @ fs)))
                              (ex - int (length fs)),
                            r3))))"

text \<open>
  A value, the elements of an array after its opening bracket, the members of an object
  after its opening brace. The first argument bounds the number of nested calls; each
  call reads at least one character before the one it makes, or is made by one that
  did, so \<open>JSON_parse\<close> below gives them more than any text can use.
\<close>

fun parse_value :: "nat \<Rightarrow> string \<Rightarrow> (json \<times> string) option"
  and parse_elements :: "nat \<Rightarrow> string \<Rightarrow> (json list \<times> string) option"
  and parse_members :: "nat \<Rightarrow> string \<Rightarrow> ((nat list \<times> json) list \<times> string) option" where
  "parse_value 0 cs = None"
| "parse_value (Suc n) cs =
     (case skip_ws cs of
        [] \<Rightarrow> None
      | c # r \<Rightarrow>
          if c = CHR ''{'' then
            (case skip_ws r of
               [] \<Rightarrow> None
             | d # r' \<Rightarrow>
                 if d = CHR ''}'' then Some (JObject [], r')
                 else map_option (\<lambda>(ms, r''). (JObject ms, r'')) (parse_members n r))
          else if c = CHR ''['' then
            (case skip_ws r of
               [] \<Rightarrow> None
             | d # r' \<Rightarrow>
                 if d = CHR '']'' then Some (JArray [], r')
                 else map_option (\<lambda>(vs, r''). (JArray vs, r'')) (parse_elements n r))
          else if c = CHR 0x22 then
            map_option (\<lambda>(s, r'). (JString s, r')) (parse_chars r)
          else if prefix ''true'' (c # r) then Some (JBool True, drop 4 (c # r))
          else if prefix ''false'' (c # r) then Some (JBool False, drop 5 (c # r))
          else if prefix ''null'' (c # r) then Some (JNull, drop 4 (c # r))
          else parse_number (c # r))"
| "parse_elements 0 cs = None"
| "parse_elements (Suc n) cs =
     (case parse_value n cs of
        None \<Rightarrow> None
      | Some (v, r) \<Rightarrow>
          (case skip_ws r of
             [] \<Rightarrow> None
           | c # r' \<Rightarrow>
               if c = CHR '','' then
                 map_option (\<lambda>(vs, r''). (v # vs, r'')) (parse_elements n r')
               else if c = CHR '']'' then Some ([v], r')
               else None))"
| "parse_members 0 cs = None"
| "parse_members (Suc n) cs =
     (case skip_ws cs of
        [] \<Rightarrow> None
      | q # r \<Rightarrow>
          if q \<noteq> CHR 0x22 then None
          else
            (case parse_chars r of
               None \<Rightarrow> None
             | Some (k, r1) \<Rightarrow>
                 (case skip_ws r1 of
                    [] \<Rightarrow> None
                  | c # r2 \<Rightarrow>
                      if c \<noteq> CHR '':'' then None
                      else
                        (case parse_value n r2 of
                           None \<Rightarrow> None
                         | Some (v, r3) \<Rightarrow>
                             (case skip_ws r3 of
                                [] \<Rightarrow> None
                              | d # r4 \<Rightarrow>
                                  if d = CHR '','' then
                                    map_option (\<lambda>(ms, r5). ((k, v) # ms, r5))
                                      (parse_members n r4)
                                  else if d = CHR ''}'' then Some ([(k, v)], r4)
                                  else None)))))"

text \<open>\<open>JSON.parse(text)\<close>: one value, with nothing but white space around it.\<close>

definition JSON_parse :: "string \<Rightarrow> error + json" where
  "JSON_parse text =
     (case parse_value (2 * length text + 2) text of
        None \<Rightarrow> Inl SyntaxError
      | Some (v, r) \<Rightarrow> if skip_ws r = [] then Inr v else Inl SyntaxError)"

text \<open>
  \<open>JSON.parse\<close> converts its argument to a string first; an object becomes
  \<open>[object Object]\<close>.
\<close>

definition to_string :: "jsval \<Rightarrow> string" where
  "to_string v =
     (case v of
        Undefined \<Rightarrow> ''undefined''
      | Str s \<Rightarrow> s
      | Obj ps \<Rightarrow> ''[object Object]'')"

text \<open>
  Reading a property of a parsed value: \<open>null\<close> has none and the read throws; in an
  object the last member of that name counts; any other value has no such property.
\<close>

definition get_prop :: "json \<Rightarrow> string \<Rightarrow> error + json option" where
  "get_prop v name =
     (case v of
        JNull \<Rightarrow> Inl TypeError
      | JObject ms \<Rightarrow> Inr (map_of (rev ms) (map of_char name))
      | _ \<Rightarrow> Inr None)"

text \<open>
  Truthiness. A number is falsy when it is zero as a double, which a decimal numeral is
  when its mantissa is zero or its magnitude is at most \<open>2^-1075\<close>, half the least
  positive double.
\<close>

definition truthy :: "json option \<Rightarrow> bool" where
  "truthy v =
     (case v of
        None \<Rightarrow> False
      | Some JNull \<Rightarrow> False
      | Some (JBool b) \<Rightarrow> b
      | Some (JNumber m e) \<Rightarrow>
          m \<noteq> 0 \<and> \<not> (e < 0 \<and> \<bar>m\<bar> * 2 ^ 1075 \<le> 10 ^ nat (- e))
      | Some (JString s) \<Rightarrow> s \<noteq> []
      | Some (JArray vs) \<Rightarrow> True
      | Some (JObject ms) \<Rightarrow> True)"

text \<open>\<open>v.first || v.second\<close> as a condition.\<close>

definition either_prop :: "json \<Rightarrow> string \<Rightarrow> string \<Rightarrow> error + bool" where
  "either_prop v first second =
     (case get_prop v first of
        Inl e \<Rightarrow> Inl e
      | Inr a \<Rightarrow>
          if truthy a then Inr True
          else (case get_prop v second of
                  Inl e \<Rightarrow> Inl e
                | Inr b \<Rightarrow> Inr (truthy b)))"

section \<open>The file system\<close>

text \<open>
  The file tree the source reads: regular files with their text, directories with their
  entries in the order \<open>readdirSync\<close> lists them, and entries on which \<open>statSync\<close>
  fails (a symbolic link whose target is missing). The tree has no other links.
\<close>

datatype node = File string | Dir "(string \<times> node) list" | Dangling

text \<open>
  The segments of a path, resolved lexically: empty segments and \<open>.\<close> are dropped,
  \<open>..\<close> drops the segment before it and stays at the root.
\<close>

fun normalize_segments :: "string list \<Rightarrow> string list \<Rightarrow> string list" where
  "normalize_segments [] acc = rev acc"
| "normalize_segments (c # cs) acc =
     (if c = [] \<or> c = ''.'' then normalize_segments cs acc
      else if c = ''..'' then normalize_segments cs (tl acc)
      else normalize_segments cs (c # acc))"

definition segments :: "string \<Rightarrow> string list" where
  "segments path = normalize_segments (split path CHR ''/'') []"

fun lookup :: "node \<Rightarrow> string list \<Rightarrow> error + node" where
  "lookup Dangling cs = Inl ENOENT"
| "lookup n [] = Inr n"
| "lookup (File text) (c # cs) = Inl ENOTDIR"
| "lookup (Dir entries) (c # cs) =
     (case map_of entries c of
        None \<Rightarrow> Inl ENOENT
      | Some n \<Rightarrow> lookup n cs)"

text \<open>\<open>fs.readFileSync(path).toString()\<close>.\<close>

definition readFileSync :: "node \<Rightarrow> string \<Rightarrow> error + string" where
  "readFileSync tree path =
     (case lookup tree (segments path) of
        Inl e \<Rightarrow> Inl e
      | Inr (File text) \<Rightarrow> Inr text
      | Inr (Dir entries) \<Rightarrow> Inl EISDIR
      | Inr Dangling \<Rightarrow> Inl ENOENT)"

text \<open>
  \<open>path.join(location, entry)\<close>, for a location in normal form and an entry name as
  \<open>readdirSync\<close> gives it: the two joined by one separator.
\<close>

definition path_join :: "string \<Rightarrow> string \<Rightarrow> string" where
  "path_join location entry = location @ ''/'' @ entry"

text \<open>
  \<open>path.dirname(path)\<close>, as the POSIX implementation of the \<open>path\<close> module computes
  it: trailing separators are skipped, the path is cut before the last separator that
  follows, and a path without one gives the root or \<open>.\<close>.
\<close>

definition dirname :: "string \<Rightarrow> string" where
  "dirname path =
     (if path = [] then ''.''
      else
        (let hasRoot = (hd path = CHR ''/'');
             r = dropWhile (\<lambda>c. c \<noteq> CHR ''/'')
                   (dropWhile (\<lambda>c. c = CHR ''/'') (rev (tl path)));
             end = length r
         in if r = [] then (if hasRoot then ''/'' else ''.'')
            else if hasRoot \<and> end = 1 then ''//''
            else take end path))"

section \<open>TreeScanner: \<open>readDirectory\<close>\<close>

definition BLACKLISTED_DIRECTORIES :: "string list" where
  "BLACKLISTED_DIRECTORIES = [''__tests__'', ''aws-sdk'']"

text \<open>
  \<open>readDirectory location n\<close> scans the node \<open>n\<close> found at \<open>location\<close>;
  \<open>reduce_entries\<close> is the \<open>reduce\<close> over its entries, with the result so far. A
  directory that is not blacklisted is scanned and its files merged into the result; any
  other entry is a candidate file, skipped when \<open>isFileValid\<close> rejects its path and
  read otherwise.
\<close>

fun readDirectory :: "string \<Rightarrow> node \<Rightarrow> error + files"
  and reduce_entries :: "string \<Rightarrow> (string \<times> node) list \<Rightarrow> files \<Rightarrow> error + files" where
  "readDirectory location (Dir entries) = reduce_entries location entries []"
| "readDirectory location (File text) = Inl ENOTDIR"
| "readDirectory location Dangling = Inl ENOENT"
| "reduce_entries location [] result = Inr result"
| "reduce_entries location ((entry, n) # rest) result =
     (let fullPath = path_join location entry
      in case n of
           Dangling \<Rightarrow> Inl ENOENT
         | Dir sub \<Rightarrow>
             if array_indexOf BLACKLISTED_DIRECTORIES entry = -1 then
               (case readDirectory fullPath n of
                  Inl e \<Rightarrow> Inl e
                | Inr found \<Rightarrow> reduce_entries location rest (spread result found))
             else if \<not> isFileValid fullPath then reduce_entries location rest result
             else Inl EISDIR
         | File text \<Rightarrow>
             if \<not> isFileValid fullPath then reduce_entries location rest result
             else reduce_entries location rest
                    (obj_set result fullPath (Obj [(''code'', Str text)])))"

section \<open>ManifestCleaner: \<open>cleanFiles\<close>\<close>

text \<open>
  The \<open>try\<close> block of the filter: parse the stored value, read \<open>typings\<close> and \<open>types\<close>.
  An error in it is caught and the filter goes on to the test on the other paths.
\<close>

definition declares_types :: "files \<Rightarrow> string \<Rightarrow> error + bool" where
  "declares_types files checkedPath =
     (case JSON_parse (to_string (obj_get files checkedPath)) of
        Inl e \<Rightarrow> Inl e
      | Inr parsed \<Rightarrow> either_prop parsed ''typings'' ''types'')"

definition validDependencies :: "files \<Rightarrow> string list" where
  "validDependencies files =
     (let paths = keys files
      in filter (\<lambda>checkedPath.
           if endsWith checkedPath ''/package.json'' then
             (case declares_types files checkedPath of
                Inr True \<Rightarrow> True
              | _ \<Rightarrow> list_ex (\<lambda>p. startsWith p (dirname checkedPath) \<and> endsWith p ''.ts'')
                       paths)
           else False) paths)"

definition cleanFiles :: "files \<Rightarrow> files" where
  "cleanFiles files =
     (let paths = keys files;
          valid = validDependencies files
      in fold (\<lambda>p newFiles.
                 if endsWith p ''.ts'' \<or> array_indexOf valid p > -1
                 then obj_set newFiles p (obj_get files p)
                 else newFiles)
           paths [])"

section \<open>The world outside: the shell, the hash, the scratch area\<close>

text \<open>
  The state is the file tree and the record of what was done to it from outside the
  scanner: the commands run and the paths removed. The package manager and the hashing
  package are not part of the program; they are parameters: \<open>hash_sum\<close> is the
  function the source imports as \<open>sum\<close>, and \<open>run\<close> gives, for a command line and a
  tree, whether the command exits with status zero, and the tree it leaves.
\<close>

datatype event = Exec string | Rimraf string

record state =
  root :: node
  trace :: "event list"

record env =
  hash_sum :: "string \<Rightarrow> string"
  run :: "string \<Rightarrow> node \<Rightarrow> bool \<times> node"

definition execSync :: "env \<Rightarrow> string \<Rightarrow> state \<Rightarrow> (error + unit) \<times> state" where
  "execSync env command st =
     (let (ok, root') = run env command (root st);
          st' = st\<lparr>root := root', trace := trace st @ [Exec command]\<rparr>
      in (if ok then Inr () else Inl CommandFailed, st'))"

text \<open>
  Removing a path with all beneath it. Every entry of that name goes; the root itself
  stays.
\<close>

fun remove :: "string list \<Rightarrow> node \<Rightarrow> node"
  and remove_entry :: "string \<Rightarrow> string list \<Rightarrow> (string \<times> node) list \<Rightarrow> (string \<times> node) list" where
  "remove cs (File text) = File text"
| "remove cs Dangling = Dangling"
| "remove [] (Dir entries) = Dir entries"
| "remove (c # cs) (Dir entries) = Dir (remove_entry c cs entries)"
| "remove_entry c cs [] = []"
| "remove_entry c cs ((k, n) # entries) =
     (if k = c then
        (if cs = [] then remove_entry c cs entries else (k, remove cs n) # entries)
      else (k, n) # remove_entry c cs entries)"

definition rimraf_sync :: "string \<Rightarrow> state \<Rightarrow> state" where
  "rimraf_sync path st =
     st\<lparr>root := remove (segments path) (root st), trace := trace st @ [Rimraf path]\<rparr>"

section \<open>PackageMaterializer: \<open>extractFiles\<close>\<close>

definition install_command :: "string \<Rightarrow> string \<Rightarrow> string \<Rightarrow> string" where
  "install_command dependency version dependencyLocation =
     ''cd /tmp && mkdir '' @ dependencyLocation @ '' && cd '' @ dependencyLocation
       @ '' && HOME=/tmp npm i --production '' @ dependency @ ''@'' @ version
       @ '' --no-save''"

definition extractFiles ::
    "env \<Rightarrow> string \<Rightarrow> string \<Rightarrow> string \<Rightarrow> state \<Rightarrow> (error + files) \<times> state" where
  "extractFiles env dependency version dependencyLocation st =
     (case execSync env (install_command dependency version dependencyLocation) st of
        (Inl e, st1) \<Rightarrow> (Inl e, st1)
      | (Inr u, st1) \<Rightarrow>
          (let dependencyPath = ''/tmp/'' @ dependencyLocation @ ''/node_modules'';
               packageJSON = dependencyPath @ ''/'' @ dependency @ ''/package.json''
           in case readFileSync (root st1) packageJSON of
                Inl e \<Rightarrow> (Inl e, st1)
              | Inr text \<Rightarrow>
                  (case JSON_parse text of
                     Inl e \<Rightarrow> (Inl e, st1)
                   | Inr pkg \<Rightarrow>
                       (case either_prop pkg ''types'' ''typings'' of
                          Inl e \<Rightarrow> (Inl e, st1)
                        | Inr declared \<Rightarrow>
                            if \<not> declared \<and> \<not> startsWith dependency ''@types/''
                            then (Inr [], st1)
                            else
                              (case lookup (root st1) (segments dependencyPath) of
                                 Inl e \<Rightarrow> (Inl e, st1)
                               | Inr n \<Rightarrow>
                                   (case readDirectory dependencyPath n of
                                      Inl e \<Rightarrow> (Inl e, st1)
                                    | Inr found \<Rightarrow> (Inr (cleanFiles found), st1)))))))"

section \<open>ResponseBudgeter: \<open>dropFiles\<close>\<close>

text \<open>
  The ceiling is \<open>5.8 * 1024 * 1024\<close>. The source computes it in double precision, which
  gives a number between the same two integers as the exact product, so a length
  compares with it as with the exact product.
\<close>

definition MAX_RES_SIZE :: real where
  "MAX_RES_SIZE = 5.8 * 1024 * 1024"

text \<open>
  The \<open>while\<close> loop, on the variables \<open>result\<close> and \<open>index\<close>. It may not end, so it
  gives \<open>None\<close> when it does not.
\<close>

partial_function (option) dropFiles_loop ::
    "files \<Rightarrow> string list \<Rightarrow> files \<Rightarrow> nat \<Rightarrow> (files \<times> nat) option" where
  "dropFiles_loop files paths result index =
     (if real (length (JSON_stringify result)) < MAX_RES_SIZE \<and> index < length paths
      then dropFiles_loop files paths
             (obj_set result (paths ! index) (obj_get files (paths ! index))) index
      else Some (result, index))"

declare dropFiles_loop.simps [code]

definition dropFiles :: "files \<Rightarrow> (files \<times> nat) option" where
  "dropFiles files =
     (case dropFiles_loop files (keys files) [] 0 of
        None \<Rightarrow> None
      | Some (result, index) \<Rightarrow> Some (result, index + 1))"

section \<open>The pipeline: \<open>downloadDependencyTypings\<close>\<close>

text \<open>\<open>s.replace(pattern, replacement)\<close> for a string pattern: the first occurrence.\<close>

fun replace :: "string \<Rightarrow> string \<Rightarrow> string \<Rightarrow> string" where
  "replace [] pat rep = (if pat = [] then rep else [])"
| "replace (c # s) pat rep =
     (if prefix pat (c # s) then rep @ drop (length pat) (c # s)
      else c # replace s pat rep)"

text \<open>
  The regular expression \<open>/\.tsx?/\<close> is not anchored and its last character is
  optional: it matches the strings in which \<open>.ts\<close> occurs.
\<close>

definition test_tsx :: "string \<Rightarrow> bool" where
  "test_tsx p = (indexOf p ''.ts'' > -1)"

record IResult =
  files :: "(string \<times> jsval) list"
  droppedFileCount :: "nat option"

text \<open>
  The body of the \<open>try\<close> statement. Its outcome is \<open>None\<close> when the budgeting loop
  does not end; the state is the one the body has reached, which only the install
  command changes.
\<close>

definition try_block ::
    "env \<Rightarrow> string \<Rightarrow> string \<Rightarrow> string \<Rightarrow> state \<Rightarrow> (error + IResult) option \<times> state" where
  "try_block env dependency version dependencyLocation st =
     (let dependencyPath = ''/tmp/'' @ dependencyLocation @ ''/node_modules''
      in case extractFiles env dependency version dependencyLocation st of
           (Inl e, st1) \<Rightarrow> (Some (Inl e), st1)
         | (Inr extracted, st1) \<Rightarrow>
             if list_ex test_tsx (keys extracted) then
               (let filesWithNoPrefix =
                      fold (\<lambda>n t. obj_set t (replace n dependencyPath [])
                                     (Obj [(''module'', obj_get extracted n)]))
                        (keys extracted) [];
                    resultSize =
                      length (JSON_stringify
                                [(''status'', Str ''ok''), (''files'', Obj filesWithNoPrefix)])
                in if real resultSize > MAX_RES_SIZE then
                     (case dropFiles filesWithNoPrefix of
                        None \<Rightarrow> (None, st1)
                      | Some (cleanedFiles, dropped) \<Rightarrow>
                          (Some (Inr \<lparr>files = cleanedFiles, droppedFileCount = Some dropped\<rparr>),
                           st1))
                   else (Some (Inr \<lparr>files = filesWithNoPrefix, droppedFileCount = None\<rparr>),
                         st1))
             else (Some (Inr \<lparr>files = [], droppedFileCount = None\<rparr>), st1))"

text \<open>
  The whole function: the destructuring default gives \<open>latest\<close> for an \<open>undefined\<close>
  version only, and the \<open>finally\<close> clause removes the scratch directory when the
  \<open>try\<close> body is left, with a result or with an error. A body that is never left
  gives no outcome, and the state stays the one the body reached.
\<close>

definition downloadDependencyTypings ::
    "env \<Rightarrow> string \<Rightarrow> state \<Rightarrow> (error + IResult) option \<times> state" where
  "downloadDependencyTypings env depQuery st =
     (let (dependency, parsed_version) = getDependencyAndVersion depQuery;
          version = (case parsed_version of None \<Rightarrow> ''latest'' | Some v \<Rightarrow> v);
          dependencyLocation = hash_sum env (dependency @ ''@'' @ version)
      in case try_block env dependency version dependencyLocation st of
           (None, st1) \<Rightarrow> (None, st1)
         | (Some outcome, st1) \<Rightarrow>
             (Some outcome, rimraf_sync (''/tmp/'' @ dependencyLocation) st1))"

section \<open>Routes through the tree\<close>

text \<open>
  \<open>is_file_at n names text\<close>: following the entry names \<open>names\<close> from the node \<open>n\<close>
  leads to a regular file whose content is \<open>text\<close>.
\<close>

fun is_file_at :: "node \<Rightarrow> string list \<Rightarrow> string \<Rightarrow> bool"
  and is_file_in :: "(string \<times> node) list \<Rightarrow> string \<Rightarrow> string list \<Rightarrow> string \<Rightarrow> bool" where
  "is_file_at (File t) names text = (names = [] \<and> text = t)"
| "is_file_at Dangling names text = False"
| "is_file_at (Dir entries) [] text = False"
| "is_file_at (Dir entries) (c # cs) text = is_file_in entries c cs text"
| "is_file_in [] c cs text = False"
| "is_file_in ((k, n) # entries) c cs text =
     ((k = c \<and> is_file_at n cs text) \<or> is_file_in entries c cs text)"

text \<open>The path that a list of entry names spells below a location.\<close>

definition below :: "string \<Rightarrow> string list \<Rightarrow> string" where
  "below location names = location @ concat (map (\<lambda>name. ''/'' @ name) names)"

text \<open>
  \<open>scanned location n k v\<close>: the key \<open>k\<close> spells, below \<open>location\<close>, a route of \<open>n\<close>
  to a regular file; no directory on the route is blacklisted; \<open>v\<close> is the object
  \<open>{ code }\<close> holding the content of that file.
\<close>

definition scanned :: "string \<Rightarrow> node \<Rightarrow> string \<Rightarrow> jsval \<Rightarrow> bool" where
  "scanned location n k v =
     (\<exists>names text. k = below location names \<and> v = Obj [(''code'', Str text)]
        \<and> is_file_at n names text
        \<and> (\<forall>d \<in> set (butlast names). d \<notin> set BLACKLISTED_DIRECTORIES))"

text \<open>No entry name of the tree contains the separator, as in a real directory.\<close>

fun plain_names :: "node \<Rightarrow> bool"
  and plain_entries :: "(string \<times> node) list \<Rightarrow> bool" where
  "plain_names (File t) = True"
| "plain_names Dangling = True"
| "plain_names (Dir entries) = plain_entries entries"
| "plain_entries [] = True"
| "plain_entries ((k, n) # entries) =
     (CHR ''/'' \<notin> set k \<and> plain_names n \<and> plain_entries entries)"

section \<open>Example worlds\<close>

text \<open>
  A scratch area whose identifier is \<open>0a1b2c3d\<close>, holding the given content of
  \<open>node_modules\<close>; a world in which the install command leaves that area and exits
  with the given status; the state before a request.
\<close>

definition installed :: "(string \<times> node) list \<Rightarrow> node" where
  "installed modules =
     Dir [(''tmp'', Dir [(''0a1b2c3d'', Dir [(''node_modules'', Dir modules)])])]"

definition world :: "bool \<Rightarrow> (string \<times> node) list \<Rightarrow> env" where
  "world ok modules =
     \<lparr>hash_sum = (\<lambda>s. ''0a1b2c3d''), run = (\<lambda>command tree. (ok, installed modules))\<rparr>"

definition fresh_state :: state where
  "fresh_state = \<lparr>root = Dir [(''tmp'', Dir [])], trace = []\<rparr>"

text \<open>
  A typed package with a type-only directory and two blacklisted directories; a package
  whose manifest is not JSON; a package that declares no types; a package with a broken
  link; a package whose manifest names a declaration file the scanner does not collect,
  beside a package with a declaration file and no such field.
\<close>

definition demo_modules :: "(string \<times> node) list" where
  \<open>demo_modules =
     [(''demo'', Dir
        [(''package.json'', File ''{"name":"demo","types":"index.d.ts"}''),
         (''index.d.ts'', File ''export {};''),
         (''src'', Dir [(''util.ts'', File ''let x = 1;''),
                        (''util.d.ts'', File ''declare let x: number;'')]),
         (''lib'', Dir [(''__tests__'', Dir [(''t.d.ts'', File ''export {};'')]),
                        (''aws-sdk'', Dir [(''sdk.d.ts'', File ''export {};'')]),
                        (''my-package.json'', File ''{}'')])])]\<close>

definition malformed_modules :: "(string \<times> node) list" where
  \<open>malformed_modules =
     [(''demo'', Dir [(''package.json'', File ''{"name":"demo",''),
                      (''index.d.ts'', File ''export {};'')])]\<close>

definition untyped_modules :: "(string \<times> node) list" where
  \<open>untyped_modules =
     [(''demo'', Dir [(''package.json'', File ''{"name":"demo"}''),
                      (''index.js'', File ''module.exports = 1;'')])]\<close>

definition broken_modules :: "(string \<times> node) list" where
  \<open>broken_modules =
     [(''demo'', Dir [(''package.json'', File ''{"types":"index.d.ts"}''),
                      (''current'', Dangling)])]\<close>

definition typed_modules :: "(string \<times> node) list" where
  \<open>typed_modules =
     [(''typed'', Dir [(''package.json'', File ''{"types":"lib/index.d.mts"}''),
                       (''lib'', Dir [(''index.d.mts'', File ''export {};'')])]),
      (''plain'', Dir [(''package.json'', File ''{"name":"plain"}''),
                       (''index.d.ts'', File ''export {};'')])]\<close>

text \<open>
  A typed package whose declaration files are, in the order of the directory, a small
  one and one with the given content.
\<close>

definition big_modules :: "string \<Rightarrow> (string \<times> node) list" where
  \<open>big_modules content =
     [(''big'', Dir [(''package.json'', File ''{"types":"index.d.ts"}''),
                     (''a.d.ts'', File ''export {};''),
                     (''index.d.ts'', File content)])]\<close>

text \<open>
  Two mappings as the pipeline hands them to the budgeting step, each too large for the
  ceiling as a whole: in the first the first file alone is above the ceiling, in the
  second it is small and the second file is large.
\<close>

definition large_first :: "(string \<times> jsval) list" where
  "large_first =
     [(''/big/index.d.ts'',
         Obj [(''module'', Obj [(''code'', Str (replicate 7000000 CHR ''a''))])]),
      (''/big/a.d.ts'', Obj [(''module'', Obj [(''code'', Str ''export {};'')])]),
      (''/big/b.d.ts'', Obj [(''module'', Obj [(''code'', Str ''export {};'')])])]"

definition small_first :: "(string \<times> jsval) list" where
  "small_first =
     [(''/big/a.d.ts'', Obj [(''module'', Obj [(''code'', Str ''export {};'')])]),
      (''/big/index.d.ts'',
         Obj [(''module'', Obj [(''code'', Str (replicate 7000000 CHR ''a''))])])]"

section \<open>Facts about \<open>split\<close> and \<open>join\<close>\<close>

lemma split_not_Nil [simp]: "split s c \<noteq> []"
  by (induction s) (auto split: list.splits)

lemma length_split: "length (split s c) = Suc (count_list s c)"
  by (induction s) (auto split: list.splits)

lemma split_no_sep: "c \<notin> set s \<Longrightarrow> split s c = [s]"
  by (induction s) auto

lemma split_append_sep: "split (a @ c # b) c = split a c @ split b c"
  by (induction a) (auto split: list.splits)

lemma count_list_zero_iff: "count_list s c = 0 \<longleftrightarrow> c \<notin> set s"
  by (induction s) auto

lemma join_split: "join (split s c) [c] = s"
proof (induction s)
  case Nil
  show ?case by simp
next
  case (Cons x s)
  obtain p ps where ps: "split s c = p # ps"
    by (cases "split s c") auto
  show ?case
  proof (cases "x = c")
    case True
    with Cons ps show ?thesis by simp
  next
    case False
    with Cons ps show ?thesis by (cases ps) auto
  qed
qed

section \<open>SpecifierParser: what \<open>getDependencyAndVersion\<close> returns\<close>

text \<open>
  In a specifier with an \<open>@\<close> that is not its first character, the version is what
  follows the last \<open>@\<close> and the dependency is all that precedes it.
\<close>

lemma getDependencyAndVersion_last_at:
  assumes "d \<noteq> []" and "CHR ''@'' \<notin> set X"
  shows "getDependencyAndVersion (d @ ''@'' @ X) = (d, Some X)"
proof -
  have sp: "split (d @ CHR ''@'' # X) CHR ''@'' = split d CHR ''@'' @ [X]"
    using split_append_sep [of d "CHR ''@''" X] assms(2) by (simp add: split_no_sep)
  have "\<not> (startsWith (d @ ''@'' @ X) ''@'' \<and> length (split (d @ ''@'' @ X) CHR ''@'') = 2)"
  proof
    assume h: "startsWith (d @ ''@'' @ X) ''@'' \<and> length (split (d @ ''@'' @ X) CHR ''@'') = 2"
    then have "count_list d CHR ''@'' = 0" by (simp add: sp length_split)
    then have "CHR ''@'' \<notin> set d" by (simp add: count_list_zero_iff)
    moreover from h assms(1) have "hd d = CHR ''@''"
      by (cases d) (auto simp: startsWith_def)
    ultimately show False using assms(1) by (cases d) auto
  qed
  moreover have "length (split (d @ ''@'' @ X) CHR ''@'') \<noteq> 1"
    by (simp add: sp length_split)
  ultimately show ?thesis
    unfolding getDependencyAndVersion_def
    by (simp add: sp pop_def join_split [of d "CHR ''@''", simplified])
qed

text \<open>
  C6. A specifier without \<open>@\<close>, and a specifier that begins with \<open>@\<close> and has no other
  \<open>@\<close>, is returned whole as the dependency, with the version \<open>latest\<close>. A scoped
  specifier \<open>@scope/name@X\<close>, with a version \<open>X\<close> free of \<open>@\<close>, gives the dependency
  \<open>@scope/name\<close>, scope included, and the version \<open>X\<close>.
\<close>

theorem getDependencyAndVersion_latest_and_scoped:
  "(CHR ''@'' \<notin> set s \<longrightarrow> getDependencyAndVersion s = (s, Some ''latest''))
   \<and> (CHR ''@'' \<notin> set t \<longrightarrow>
        getDependencyAndVersion (''@'' @ t) = (''@'' @ t, Some ''latest''))
   \<and> (CHR ''@'' \<notin> set X \<longrightarrow>
        getDependencyAndVersion (''@'' @ scope @ ''/'' @ name @ ''@'' @ X)
          = (''@'' @ scope @ ''/'' @ name, Some X))"
proof (intro conjI impI)
  assume "CHR ''@'' \<notin> set s"
  then show "getDependencyAndVersion s = (s, Some ''latest'')"
    by (simp add: getDependencyAndVersion_def split_no_sep)
next
  assume "CHR ''@'' \<notin> set t"
  then have "split (''@'' @ t) CHR ''@'' = [[], t]"
    by (simp add: split_no_sep)
  then show "getDependencyAndVersion (''@'' @ t) = (''@'' @ t, Some ''latest'')"
    by (simp add: getDependencyAndVersion_def startsWith_def)
next
  assume "CHR ''@'' \<notin> set X"
  with getDependencyAndVersion_last_at [of "''@'' @ scope @ ''/'' @ name" X]
  show "getDependencyAndVersion (''@'' @ scope @ ''/'' @ name @ ''@'' @ X)
          = (''@'' @ scope @ ''/'' @ name, Some X)"
    by simp
qed

theorem getDependencyAndVersion_latest_and_scoped_witness:
  "getDependencyAndVersion ''react'' = (''react'', Some ''latest'')
   \<and> getDependencyAndVersion ''@types/node'' = (''@types/node'', Some ''latest'')
   \<and> getDependencyAndVersion ''@org/pkg@1.2.3'' = (''@org/pkg'', Some ''1.2.3'')"
  using getDependencyAndVersion_latest_and_scoped
          [of "''react''" "''types/node''" "''1.2.3''" "''org''" "''pkg''"]
  by simp

section \<open>TreeScanner: which paths \<open>isFileValid\<close> keeps\<close>

lemma indexOf_sublist: "(indexOf s t > -1) = sublist t s"
proof (induction s)
  case Nil
  show ?case by simp
next
  case (Cons c s)
  show ?case
  proof (cases "prefix t (c # s)")
    case True
    then show ?thesis by (simp add: sublist_Cons_right)
  next
    case False
    have "(indexOf (c # s) t > -1) = (indexOf s t > -1)"
      using False by (simp add: Let_def)
    with Cons False show ?thesis by (simp add: sublist_Cons_right)
  qed
qed

text \<open>
  C8, as the code has it. A path is kept exactly when it ends in the required suffix,
  which is \<open>.d.ts\<close> when \<open>/src/\<close> occurs in the path and \<open>.ts\<close> otherwise, or when it
  ends in \<open>package.json\<close>. The manifest rule is a test on the end of the path: it keeps
  every file named \<open>package.json\<close>, and every other name that ends in those characters.
\<close>

theorem isFileValid_suffix_rules:
  "isFileValid path \<longleftrightarrow>
     (if sublist ''/src/'' path then suffix ''.d.ts'' path else suffix ''.ts'' path)
     \<or> suffix ''package.json'' path"
  by (simp add: isFileValid_def TYPE_ONLY_DIRECTORIES_def endsWith_def indexOf_sublist)

theorem isFileValid_suffix_rules_witness:
  "\<not> isFileValid ''/pkg/src/util.ts'' \<and> isFileValid ''/pkg/src/util.d.ts''
   \<and> isFileValid ''/pkg/lib/util.ts'' \<and> isFileValid ''/pkg/src/package.json''
   \<and> \<not> isFileValid ''/pkg/lib/util.js''"
  using isFileValid_suffix_rules [of "''/pkg/src/util.ts''"]
    isFileValid_suffix_rules [of "''/pkg/src/util.d.ts''"]
    isFileValid_suffix_rules [of "''/pkg/lib/util.ts''"]
    isFileValid_suffix_rules [of "''/pkg/src/package.json''"]
    isFileValid_suffix_rules [of "''/pkg/lib/util.js''"]
  by (simp add: sublist_code suffix_to_prefix)

text \<open>
  C8, as the claim states it, fails: the file \<open>my-package.json\<close> is kept, although it
  does not end in \<open>.ts\<close> and its name is not \<open>package.json\<close>.
\<close>

theorem isFileValid_keeps_longer_name:
  "isFileValid ''/pkg/lib/my-package.json''
   \<and> \<not> suffix ''.ts'' ''/pkg/lib/my-package.json''
   \<and> last (split ''/pkg/lib/my-package.json'' CHR ''/'') \<noteq> ''package.json''"
  by (simp add: isFileValid_def TYPE_ONLY_DIRECTORIES_def endsWith_def suffix_to_prefix)

section \<open>The pipeline: what a run does to the world\<close>

lemma extractFiles_state:
  "snd (extractFiles env d v loc st) = snd (execSync env (install_command d v loc) st)"
  unfolding extractFiles_def
  by (auto simp: Let_def split: prod.splits sum.splits)

lemma trace_execSync:
  "trace (snd (execSync env command st)) = trace st @ [Exec command]"
  by (simp add: execSync_def Let_def split: prod.splits)

lemma root_execSync:
  "root (snd (execSync env command st)) = snd (run env command (root st))"
  by (simp add: execSync_def Let_def split: prod.splits)

lemma try_block_state:
  "snd (try_block env d v loc st) = snd (execSync env (install_command d v loc) st)"
proof -
  obtain res st2 where e: "extractFiles env d v loc st = (res, st2)"
    by (cases "extractFiles env d v loc st")
  then have "st2 = snd (execSync env (install_command d v loc) st)"
    using extractFiles_state [of env d v loc st] by simp
  moreover have "snd (try_block env d v loc st) = st2"
    unfolding try_block_def
    by (auto simp: Let_def e split: sum.splits if_splits option.splits)
  ultimately show ?thesis by simp
qed

text \<open>
  The state after a run: the install command has been run, and the scratch directory
  has been removed if, and only if, the \<open>try\<close> body was left.
\<close>

lemma downloadDependencyTypings_state:
  assumes "getDependencyAndVersion depQuery = (d, pv)"
  shows "let v = (case pv of None \<Rightarrow> ''latest'' | Some x \<Rightarrow> x);
             loc = hash_sum env (d @ ''@'' @ v);
             st1 = snd (execSync env (install_command d v loc) st)
         in snd (downloadDependencyTypings env depQuery st) =
              (if fst (downloadDependencyTypings env depQuery st) = None then st1
               else rimraf_sync (''/tmp/'' @ loc) st1)"
proof -
  let ?v = "case pv of None \<Rightarrow> ''latest'' | Some x \<Rightarrow> x"
  let ?loc = "hash_sum env (d @ ''@'' @ ?v)"
  obtain outcome st1 where t: "try_block env d ?v ?loc st = (outcome, st1)"
    by (cases "try_block env d ?v ?loc st")
  with try_block_state [of env d ?v ?loc st] have
    "st1 = snd (execSync env (install_command d ?v ?loc) st)" by simp
  with t show ?thesis
    unfolding downloadDependencyTypings_def assms
    by (cases outcome) (simp_all add: Let_def)
qed

section \<open>The install command and a version left empty\<close>

text \<open>
  C10. For a specifier \<open>t@\<close> with \<open>t\<close> not empty, the parser returns the dependency
  \<open>t\<close> and the empty string as the version, not \<open>latest\<close>. The default of the
  destructuring does not replace it: the one command that a run of the pipeline
  executes installs \<open>t@\<close>, and nothing else is done to the world but the removal of
  the scratch directory when the \<open>try\<close> body is left.
\<close>

theorem trailing_at_gives_empty_version:
  assumes "t \<noteq> []"
  shows "getDependencyAndVersion (t @ ''@'') = (t, Some [])
    \<and> trace (snd (downloadDependencyTypings env (t @ ''@'') st))
        = trace st
          @ [Exec (''cd /tmp && mkdir '' @ hash_sum env (t @ ''@'') @ '' && cd ''
                   @ hash_sum env (t @ ''@'')
                   @ '' && HOME=/tmp npm i --production '' @ t @ ''@ --no-save'')]
          @ (if fst (downloadDependencyTypings env (t @ ''@'') st) = None then []
             else [Rimraf (''/tmp/'' @ hash_sum env (t @ ''@''))])"
proof (intro conjI)
  show g: "getDependencyAndVersion (t @ ''@'') = (t, Some [])"
    using getDependencyAndVersion_last_at [of t "[]"] assms by simp
  have "snd (downloadDependencyTypings env (t @ ''@'') st) =
           (if fst (downloadDependencyTypings env (t @ ''@'') st) = None
            then snd (execSync env (install_command t [] (hash_sum env (t @ ''@''))) st)
            else rimraf_sync (''/tmp/'' @ hash_sum env (t @ ''@''))
                   (snd (execSync env (install_command t [] (hash_sum env (t @ ''@''))) st)))"
    using downloadDependencyTypings_state [OF g, of env st] by (simp add: Let_def)
  then show "trace (snd (downloadDependencyTypings env (t @ ''@'') st))
        = trace st
          @ [Exec (''cd /tmp && mkdir '' @ hash_sum env (t @ ''@'') @ '' && cd ''
                   @ hash_sum env (t @ ''@'')
                   @ '' && HOME=/tmp npm i --production '' @ t @ ''@ --no-save'')]
          @ (if fst (downloadDependencyTypings env (t @ ''@'') st) = None then []
             else [Rimraf (''/tmp/'' @ hash_sum env (t @ ''@''))])"
    by (simp add: trace_execSync rimraf_sync_def install_command_def)
qed

theorem trailing_at_gives_empty_version_witness:
  "getDependencyAndVersion ''react@'' = (''react'', Some [])
   \<and> getDependencyAndVersion ''@scope/pkg@'' = (''@scope/pkg'', Some [])
   \<and> trace (snd (downloadDependencyTypings (world True demo_modules) ''demo@'' fresh_state))
       = [Exec ''cd /tmp && mkdir 0a1b2c3d && cd 0a1b2c3d && HOME=/tmp npm i --production demo@ --no-save'',
          Rimraf ''/tmp/0a1b2c3d'']"
proof -
  have n: "fst (downloadDependencyTypings (world True demo_modules) ''demo@'' fresh_state) \<noteq> None"
    by code_simp
  from trailing_at_gives_empty_version [of "''react''"]
    trailing_at_gives_empty_version [of "''@scope/pkg''"]
    trailing_at_gives_empty_version [of "''demo''" "world True demo_modules" fresh_state] n
  show ?thesis by (simp add: world_def fresh_state_def)
qed

section \<open>TreeScanner: every emitted entry is a file of the tree\<close>

lemma array_indexOf_ge: "array_indexOf xs x \<ge> -1"
  by (induction xs) (auto simp: Let_def)

lemma array_indexOf_absent: "(array_indexOf xs x = -1) = (x \<notin> set xs)"
proof (induction xs)
  case Nil
  show ?case by simp
next
  case (Cons y ys)
  have "array_indexOf ys x \<ge> -1" by (rule array_indexOf_ge)
  with Cons show ?case by (auto simp: Let_def)
qed

lemma array_indexOf_present: "(array_indexOf xs x > -1) = (x \<in> set xs)"
  using array_indexOf_ge [of xs x] array_indexOf_absent [of xs x] by auto

lemma set_obj_set: "set (obj_set t k v) \<subseteq> insert (k, v) (set t)"
  by (induction t) (auto split: if_splits)

lemma set_spread: "set (spread a b) \<subseteq> set a \<union> set b"
proof (induction b arbitrary: a)
  case Nil
  show ?case by (simp add: spread_def)
next
  case (Cons p b)
  obtain k v where p: "p = (k, v)" by (cases p)
  have "spread a (p # b) = spread (obj_set a k v) b"
    by (simp add: spread_def p)
  moreover have "set (spread (obj_set a k v) b) \<subseteq> set (obj_set a k v) \<union> set b"
    by (rule Cons.IH)
  ultimately show ?case using set_obj_set [of a k v] p by auto
qed

lemma below_Cons: "below location (name # names) = below (path_join location name) names"
  by (simp add: below_def path_join_def)

lemma is_file_at_Dir_nonempty: "is_file_at (Dir entries) names content \<Longrightarrow> names \<noteq> []"
  by (cases names) auto

lemma scanned_here:
  "scanned location (Dir ((entry, File content) # rest)) (path_join location entry)
     (Obj [(''code'', Str content)])"
  unfolding scanned_def
  by (rule exI [of _ "[entry]"], rule exI [of _ content]) (simp add: below_def path_join_def)

lemma scanned_inside:
  assumes "scanned (path_join location entry) (Dir sub) k v"
    and "entry \<notin> set BLACKLISTED_DIRECTORIES"
  shows "scanned location (Dir ((entry, Dir sub) # rest)) k v"
proof -
  from assms(1) obtain names content where
    h: "k = below (path_join location entry) names" "v = Obj [(''code'', Str content)]"
       "is_file_at (Dir sub) names content"
       "\<forall>d \<in> set (butlast names). d \<notin> set BLACKLISTED_DIRECTORIES"
    unfolding scanned_def by blast
  from h(3) have ne: "names \<noteq> []" by (rule is_file_at_Dir_nonempty)
  have "k = below location (entry # names)" using h(1) by (simp add: below_Cons)
  moreover have "is_file_at (Dir ((entry, Dir sub) # rest)) (entry # names) content"
    using h(3) by simp
  moreover have "\<forall>d \<in> set (butlast (entry # names)). d \<notin> set BLACKLISTED_DIRECTORIES"
    using h(4) assms(2) ne by simp
  ultimately show ?thesis unfolding scanned_def using h(2) by blast
qed

lemma scanned_later:
  assumes "scanned location (Dir rest) k v"
  shows "scanned location (Dir (e # rest)) k v"
proof -
  from assms obtain names content where
    h: "k = below location names" "v = Obj [(''code'', Str content)]"
       "is_file_at (Dir rest) names content"
       "\<forall>d \<in> set (butlast names). d \<notin> set BLACKLISTED_DIRECTORIES"
    unfolding scanned_def by blast
  obtain c cs where n: "names = c # cs"
    using is_file_at_Dir_nonempty [OF h(3)] by (cases names) auto
  obtain k' n' where e: "e = (k', n')" by (cases e)
  have "is_file_at (Dir (e # rest)) names content"
    using h(3) by (simp add: n e)
  with h show ?thesis unfolding scanned_def by blast
qed

lemma scan_routes:
  "readDirectory location n = Inr found \<Longrightarrow> (k, v) \<in> set found \<Longrightarrow> scanned location n k v"
  "reduce_entries location entries result = Inr found \<Longrightarrow> (k, v) \<in> set found
     \<Longrightarrow> (k, v) \<in> set result \<or> scanned location (Dir entries) k v"
proof (induction location n and location entries result arbitrary: found and found
       rule: readDirectory_reduce_entries.induct)
  case (1 location entries)
  then show ?case by fastforce
next
  case (2 location content)
  then show ?case by simp
next
  case (3 location)
  then show ?case by simp
next
  case (4 location result)
  then show ?case by simp
next
  case (5 location entry n rest result)
  let ?p = "path_join location entry"
  show ?case
  proof (cases n)
    case Dangling
    with "5.prems" show ?thesis by simp
  next
    case (File content)
    show ?thesis
    proof (cases "isFileValid ?p")
      case False
      with "5.prems" File have "reduce_entries location rest result = Inr found"
        by simp
      from "5.IH"(1) [OF refl File False this "5.prems"(2)]
      show ?thesis using scanned_later by blast
    next
      case True
      with "5.prems" File have
        r: "reduce_entries location rest (obj_set result ?p (Obj [(''code'', Str content)])) = Inr found"
        by simp
      have nn: "\<not> \<not> isFileValid ?p" using True by simp
      from "5.IH"(2) [OF refl File nn r "5.prems"(2)]
      have "(k, v) \<in> set (obj_set result ?p (Obj [(''code'', Str content)]))
            \<or> scanned location (Dir rest) k v" .
      then show ?thesis
      proof
        assume "(k, v) \<in> set (obj_set result ?p (Obj [(''code'', Str content)]))"
        then have "(k, v) = (?p, Obj [(''code'', Str content)]) \<or> (k, v) \<in> set result"
          using set_obj_set by fastforce
        then show ?thesis using scanned_here [of location entry content rest] File by auto
      next
        assume "scanned location (Dir rest) k v"
        then show ?thesis using scanned_later by blast
      qed
    qed
  next
    case (Dir sub)
    show ?thesis
    proof (cases "array_indexOf BLACKLISTED_DIRECTORIES entry = -1")
      case True
      show ?thesis
      proof (cases "readDirectory ?p n")
        case (Inl e)
        with "5.prems" Dir True show ?thesis by simp
      next
        case (Inr inner)
        with "5.prems" Dir True have
          r: "reduce_entries location rest (spread result inner) = Inr found"
          by simp
        from "5.IH"(4) [OF refl Dir True Inr r "5.prems"(2)]
        have "(k, v) \<in> set (spread result inner) \<or> scanned location (Dir rest) k v" .
        then show ?thesis
        proof
          assume "(k, v) \<in> set (spread result inner)"
          then have "(k, v) \<in> set result \<or> (k, v) \<in> set inner"
            using set_spread by fastforce
          then show ?thesis
          proof
            assume "(k, v) \<in> set result"
            then show ?thesis by simp
          next
            assume "(k, v) \<in> set inner"
            from "5.IH"(3) [OF refl Dir True Inr this]
            have "scanned ?p n k v" .
            moreover have "entry \<notin> set BLACKLISTED_DIRECTORIES"
              using True by (simp add: array_indexOf_absent)
            ultimately show ?thesis using scanned_inside Dir by blast
          qed
        next
          assume "scanned location (Dir rest) k v"
          then show ?thesis using scanned_later by blast
        qed
      qed
    next
      case False
      show ?thesis
      proof (cases "isFileValid ?p")
        case True
        with "5.prems" Dir False show ?thesis by simp
      next
        case nv: False
        with "5.prems" Dir False have "reduce_entries location rest result = Inr found"
          by simp
        from "5.IH"(5) [OF refl Dir False nv this "5.prems"(2)]
        show ?thesis using scanned_later by blast
      qed
    qed
  qed
qed


section \<open>TreeScanner: no path beneath a blacklisted directory\<close>

lemma plain_route:
  "plain_names n \<Longrightarrow> is_file_at n names content \<Longrightarrow> \<forall>x \<in> set names. CHR ''/'' \<notin> set x"
  "plain_entries entries \<Longrightarrow> is_file_in entries c cs content
     \<Longrightarrow> CHR ''/'' \<notin> set c \<and> (\<forall>x \<in> set cs. CHR ''/'' \<notin> set x)"
  by (induction n names content and entries c cs content rule: is_file_at_is_file_in.induct)
     auto

lemma sublist_skip:
  "c \<notin> set n \<Longrightarrow> sublist (c # t) (n @ rest) \<Longrightarrow> sublist (c # t) rest"
  by (induction n) (auto simp: sublist_Cons_right)

lemma prefix_name:
  assumes "CHR ''/'' \<notin> set b" and "CHR ''/'' \<notin> set n"
    and "rest = [] \<or> hd rest = CHR ''/''"
    and "prefix (b @ ''/'') (n @ rest)"
  shows "b = n \<and> rest \<noteq> []"
  using assms
proof (induction b arbitrary: n)
  case Nil
  then show ?case by (cases n) (auto simp: prefix_Cons)
next
  case (Cons x b)
  show ?case
  proof (cases n)
    case Nil
    with Cons.prems show ?thesis by (cases rest) auto
  next
    case (Cons y n')
    with Cons.prems Cons.IH [of n'] show ?thesis by auto
  qed
qed

lemma slashes_start: "concat (map (\<lambda>name. ''/'' @ name) names) = []
    \<or> hd (concat (map (\<lambda>name. ''/'' @ name) names)) = CHR ''/''"
  by (cases names) auto

lemma blacklisted_on_route:
  assumes "CHR ''/'' \<notin> set b"
    and "\<forall>x \<in> set names. CHR ''/'' \<notin> set x"
    and "sublist (''/'' @ b @ ''/'') (concat (map (\<lambda>name. ''/'' @ name) names))"
  shows "b \<in> set (butlast names)"
  using assms(2,3)
proof (induction names)
  case Nil
  then show ?case by simp
next
  case (Cons n ns)
  let ?rest = "concat (map (\<lambda>name. ''/'' @ name) ns)"
  from Cons.prems(2) have
    "prefix (CHR ''/'' # b @ ''/'') (CHR ''/'' # n @ ?rest)
     \<or> sublist (CHR ''/'' # b @ ''/'') (n @ ?rest)"
    by (simp add: sublist_Cons_right)
  then show ?case
  proof
    assume "prefix (CHR ''/'' # b @ ''/'') (CHR ''/'' # n @ ?rest)"
    then have "prefix (b @ ''/'') (n @ ?rest)" by simp
    from prefix_name [OF assms(1) _ slashes_start this] Cons.prems(1)
    have "b = n \<and> ?rest \<noteq> []" by simp
    then have "b = n" "ns \<noteq> []" by auto
    then show ?thesis by simp
  next
    assume "sublist (CHR ''/'' # b @ ''/'') (n @ ?rest)"
    with Cons.prems(1) have "sublist (CHR ''/'' # b @ ''/'') ?rest"
      using sublist_skip by fastforce
    with Cons.IH Cons.prems(1) have "b \<in> set (butlast ns)" by simp
    then show ?thesis by (cases ns) auto
  qed
qed

text \<open>
  C7. In a tree whose entry names are free of the separator, every path the scanner
  emits begins with the scanned location, and below it lies under no directory named
  \<open>__tests__\<close> or \<open>aws-sdk\<close>, at whatever depth: the rest of the path contains neither
  \<open>/__tests__/\<close> nor \<open>/aws-sdk/\<close>.
\<close>

theorem readDirectory_skips_blacklisted:
  assumes "plain_names n" and "readDirectory location n = Inr found"
  shows "\<forall>k \<in> set (keys found). prefix location k
           \<and> (\<forall>b \<in> set BLACKLISTED_DIRECTORIES.
                 \<not> sublist (''/'' @ b @ ''/'') (drop (length location) k))"
proof
  fix k
  assume "k \<in> set (keys found)"
  then obtain v where "(k, v) \<in> set found" by (auto simp: keys_def)
  from scan_routes(1) [OF assms(2) this] obtain names content where
    h: "k = below location names" "is_file_at n names content"
       "\<forall>d \<in> set (butlast names). d \<notin> set BLACKLISTED_DIRECTORIES"
    unfolding scanned_def by blast
  from plain_route(1) [OF assms(1) h(2)] have pl: "\<forall>x \<in> set names. CHR ''/'' \<notin> set x" .
  have d: "drop (length location) k = concat (map (\<lambda>name. ''/'' @ name) names)"
    using h(1) by (simp add: below_def)
  have "\<forall>b \<in> set BLACKLISTED_DIRECTORIES.
          \<not> sublist (''/'' @ b @ ''/'') (drop (length location) k)"
  proof
    fix b
    assume b: "b \<in> set BLACKLISTED_DIRECTORIES"
    then have "CHR ''/'' \<notin> set b" by (auto simp: BLACKLISTED_DIRECTORIES_def)
    from blacklisted_on_route [OF this pl] h(3) b
    show "\<not> sublist (''/'' @ b @ ''/'') (drop (length location) k)"
      unfolding d by blast
  qed
  moreover have "prefix location k" using h(1) by (simp add: below_def)
  ultimately show "prefix location k
           \<and> (\<forall>b \<in> set BLACKLISTED_DIRECTORIES.
                 \<not> sublist (''/'' @ b @ ''/'') (drop (length location) k))" by simp
qed

theorem readDirectory_skips_blacklisted_witness:
  \<open>readDirectory ''/tmp/0a1b2c3d/node_modules'' (Dir demo_modules)
     = Inr [(''/tmp/0a1b2c3d/node_modules/demo/package.json'',
               Obj [(''code'', Str ''{"name":"demo","types":"index.d.ts"}'')]),
            (''/tmp/0a1b2c3d/node_modules/demo/index.d.ts'',
               Obj [(''code'', Str ''export {};'')]),
            (''/tmp/0a1b2c3d/node_modules/demo/src/util.d.ts'',
               Obj [(''code'', Str ''declare let x: number;'')]),
            (''/tmp/0a1b2c3d/node_modules/demo/lib/my-package.json'',
               Obj [(''code'', Str ''{}'')])]
   \<and> list_all
         (\<lambda>k. prefix ''/tmp/0a1b2c3d/node_modules'' k
              \<and> list_all
                    (\<lambda>b. \<not> sublist (''/'' @ b @ ''/'')
                               (drop (length ''/tmp/0a1b2c3d/node_modules'') k))
                    BLACKLISTED_DIRECTORIES)
         [''/tmp/0a1b2c3d/node_modules/demo/package.json'',
          ''/tmp/0a1b2c3d/node_modules/demo/index.d.ts'',
          ''/tmp/0a1b2c3d/node_modules/demo/src/util.d.ts'',
          ''/tmp/0a1b2c3d/node_modules/demo/lib/my-package.json'']\<close>
proof -
  have p: "plain_names (Dir demo_modules)"
    by (simp add: demo_modules_def)
  have r: \<open>readDirectory ''/tmp/0a1b2c3d/node_modules'' (Dir demo_modules)
     = Inr [(''/tmp/0a1b2c3d/node_modules/demo/package.json'',
               Obj [(''code'', Str ''{"name":"demo","types":"index.d.ts"}'')]),
            (''/tmp/0a1b2c3d/node_modules/demo/index.d.ts'',
               Obj [(''code'', Str ''export {};'')]),
            (''/tmp/0a1b2c3d/node_modules/demo/src/util.d.ts'',
               Obj [(''code'', Str ''declare let x: number;'')]),
            (''/tmp/0a1b2c3d/node_modules/demo/lib/my-package.json'',
               Obj [(''code'', Str ''{}'')])]\<close>
    by code_simp
  from readDirectory_skips_blacklisted [OF p r]
  have "list_all
         (\<lambda>k. prefix ''/tmp/0a1b2c3d/node_modules'' k
              \<and> list_all
                    (\<lambda>b. \<not> sublist (''/'' @ b @ ''/'')
                               (drop (length ''/tmp/0a1b2c3d/node_modules'') k))
                    BLACKLISTED_DIRECTORIES)
         [''/tmp/0a1b2c3d/node_modules/demo/package.json'',
          ''/tmp/0a1b2c3d/node_modules/demo/index.d.ts'',
          ''/tmp/0a1b2c3d/node_modules/demo/src/util.d.ts'',
          ''/tmp/0a1b2c3d/node_modules/demo/lib/my-package.json'']"
    unfolding list_all_iff by (simp only: keys_def list.map fst_conv)
  with r show ?thesis by (rule conjI)
qed

section \<open>ResponseBudgeter: what the loop of \<open>dropFiles\<close> does\<close>

lemma obj_set_idem: "obj_set (obj_set r k v) k v = obj_set r k v"
  by (induction r) auto

lemma dropFiles_loop_stuck:
  assumes "dropFiles_loop fm paths result index = Some y"
  shows "\<not> (real (length (JSON_stringify result)) < MAX_RES_SIZE \<and> index < length paths
            \<and> obj_set result (paths ! index) (obj_get fm (paths ! index)) = result)"
proof (rule dropFiles_loop.raw_induct
    [where P = "\<lambda>a b c d y. \<not> (real (length (JSON_stringify c)) < MAX_RES_SIZE \<and> d < length b
                   \<and> obj_set c (b ! d) (obj_get a (b ! d)) = c)", OF _ assms])
  fix loop :: "(string \<times> jsval) list \<Rightarrow> string list \<Rightarrow> (string \<times> jsval) list \<Rightarrow> nat
                 \<Rightarrow> ((string \<times> jsval) list \<times> nat) option"
  fix a b c d z
  assume IH: "\<And>a b c d y. loop a b c d = Some y \<Longrightarrow>
                \<not> (real (length (JSON_stringify c)) < MAX_RES_SIZE \<and> d < length b
                   \<and> obj_set c (b ! d) (obj_get a (b ! d)) = c)"
    and eq: "(if real (length (JSON_stringify c)) < MAX_RES_SIZE \<and> d < length b
              then loop a b (obj_set c (b ! d) (obj_get a (b ! d))) d
              else Some (c, d)) = Some z"
  show "\<not> (real (length (JSON_stringify c)) < MAX_RES_SIZE \<and> d < length b
           \<and> obj_set c (b ! d) (obj_get a (b ! d)) = c)"
  proof
    assume s: "real (length (JSON_stringify c)) < MAX_RES_SIZE \<and> d < length b
           \<and> obj_set c (b ! d) (obj_get a (b ! d)) = c"
    with eq have "loop a b c d = Some z" by simp
    from IH [OF this] s show False by simp
  qed
qed

lemma dropFiles_loop_cases:
  "dropFiles_loop fm paths result index =
     (let r1 = obj_set result (paths ! index) (obj_get fm (paths ! index))
      in if \<not> (real (length (JSON_stringify result)) < MAX_RES_SIZE \<and> index < length paths)
         then Some (result, index)
         else if \<not> real (length (JSON_stringify r1)) < MAX_RES_SIZE then Some (r1, index)
         else None)"
proof -
  let ?r1 = "obj_set result (paths ! index) (obj_get fm (paths ! index))"
  have unfold1: "dropFiles_loop fm paths result index =
     (if real (length (JSON_stringify result)) < MAX_RES_SIZE \<and> index < length paths
      then dropFiles_loop fm paths ?r1 index else Some (result, index))"
    by (rule dropFiles_loop.simps)
  have unfold2: "dropFiles_loop fm paths ?r1 index =
     (if real (length (JSON_stringify ?r1)) < MAX_RES_SIZE \<and> index < length paths
      then dropFiles_loop fm paths (obj_set ?r1 (paths ! index) (obj_get fm (paths ! index))) index
      else Some (?r1, index))"
    by (rule dropFiles_loop.simps)
  show ?thesis
  proof (cases "real (length (JSON_stringify result)) < MAX_RES_SIZE \<and> index < length paths")
    case False
    with unfold1 show ?thesis by (auto simp: Let_def)
  next
    case True
    show ?thesis
    proof (cases "real (length (JSON_stringify ?r1)) < MAX_RES_SIZE")
      case False
      with unfold1 unfold2 True show ?thesis by (simp add: Let_def)
    next
      case small: True
      have "dropFiles_loop fm paths ?r1 index = None"
      proof (cases "dropFiles_loop fm paths ?r1 index")
        case None
        then show ?thesis .
      next
        case (Some y)
        from dropFiles_loop_stuck [OF this] small True show ?thesis
          by (simp add: obj_set_idem)
      qed
      with unfold1 True small show ?thesis by (simp add: Let_def)
    qed
  qed
qed

lemma MAX_RES_SIZE_nat: "(real n < MAX_RES_SIZE) = (n \<le> 6081740)"
proof -
  have "(real n < MAX_RES_SIZE) = (real (n * 5) < real 30408704)"
    by (simp add: MAX_RES_SIZE_def)
  also have "\<dots> = (n * 5 < 30408704)" by (rule of_nat_less_iff)
  also have "\<dots> = (n \<le> 6081740)" by arith
  finally show ?thesis .
qed

lemma dropFiles_Nil: "dropFiles [] = Some ([], 1)"
  by (simp add: dropFiles_def dropFiles_loop_cases keys_def JSON_stringify_def MAX_RES_SIZE_def)

lemma dropFiles_Cons:
  "dropFiles ((k, v) # rest) =
     (if real (length (JSON_stringify [(k, v)])) < MAX_RES_SIZE then None
      else Some ([(k, v)], 1))"
proof -
  have "real (length (JSON_stringify [])) < MAX_RES_SIZE"
    by (simp add: JSON_stringify_def MAX_RES_SIZE_def)
  then show ?thesis
    by (simp add: dropFiles_def dropFiles_loop_cases keys_def obj_get_def Let_def)
qed

lemma length_escape_char: "length (escape_char c) \<ge> 1"
  by (simp add: escape_char_def)

lemma length_escaped: "length (concat (map escape_char s)) \<ge> length s"
proof (induction s)
  case Nil
  show ?case by simp
next
  case (Cons c s)
  with length_escape_char [of c] show ?case by simp
qed

lemma length_quote: "length (quote s) \<ge> length s + 2"
  using length_escaped [of s] by (simp add: quote_def)

lemma length_JSON_module:
  "length (JSON_stringify [(k, Obj [(''module'', Obj [(''code'', Str s)])])]) \<ge> length s"
  using length_quote [of s] by (simp add: JSON_stringify_def)

text \<open>
  C1, at a mapping the pipeline can hand over (its serialisation is above the ceiling).
  The first file alone is above the ceiling: \<open>dropFiles\<close> returns that one file, a
  mapping that is not below the ceiling, and the count 1, although two files of the
  input are left out. The loop never advances \<open>index\<close>, so it can only return the empty
  mapping or the first file, and the count is always \<open>0 + 1\<close>.
\<close>

theorem dropFiles_large_first:
  "dropFiles large_first = Some ([hd large_first], 1)
   \<and> \<not> real (length (JSON_stringify [hd large_first])) < MAX_RES_SIZE
   \<and> length large_first - length [hd large_first] = 2"
proof -
  have "7000000 \<le> length (JSON_stringify [hd large_first])"
    using length_JSON_module [of "replicate 7000000 CHR ''a''" "''/big/index.d.ts''"]
    by (simp add: large_first_def)
  then have big: "\<not> real (length (JSON_stringify [hd large_first])) < MAX_RES_SIZE"
    by (simp add: MAX_RES_SIZE_nat)
  then have "dropFiles large_first = Some ([hd large_first], 1)"
    by (simp add: large_first_def dropFiles_Cons)
  with big show ?thesis by (simp add: large_first_def)
qed

text \<open>
  C2, at a mapping the pipeline can hand over. The first file is small, the second is
  above the ceiling: the loop stores the first file again and again and does not end.
\<close>

theorem dropFiles_small_first:
  "dropFiles small_first = None"
proof -
  have "real (length (JSON_stringify [hd small_first])) < MAX_RES_SIZE"
    by (simp add: small_first_def JSON_stringify_def quote_def escape_char_def MAX_RES_SIZE_def)
  then show ?thesis
    by (simp add: small_first_def dropFiles_Cons)
qed

section \<open>ScratchReaper: the \<open>finally\<close> clause\<close>

lemma lookup_removed:
  "cs \<noteq> [] \<Longrightarrow> isl (lookup (remove cs n) cs)"
  "isl (lookup (Dir (remove_entry c cs entries)) (c # cs))"
proof (induction cs n and c cs entries rule: remove_remove_entry.induct)
  case (1 cs content)
  then show ?case by (cases cs) auto
next
  case (2 cs)
  then show ?case by simp
next
  case (3 entries)
  then show ?case by simp
next
  case (4 c cs entries)
  then show ?case by simp
next
  case (5 c cs)
  then show ?case by simp
next
  case (6 c cs k n entries)
  then show ?case by (auto split: option.splits)
qed

text \<open>
  A run that is left, with a result or with an error from the install command, from
  reading or parsing the manifest, or from the scan, has done exactly two things to the
  world, in this order: run the install command, and remove the scratch directory, once.
  Afterwards the scratch path, which names an entry below the root, no longer resolves.
\<close>

lemma scratch_removed_on_return:
  assumes "downloadDependencyTypings env depQuery st = (Some outcome, st')"
  shows "let (dependency, parsed_version) = getDependencyAndVersion depQuery;
             version = (case parsed_version of None \<Rightarrow> ''latest'' | Some v \<Rightarrow> v);
             location = hash_sum env (dependency @ ''@'' @ version);
             scratch = ''/tmp/'' @ location
         in trace st' = trace st @ [Exec (install_command dependency version location),
                                    Rimraf scratch]
            \<and> (segments scratch \<noteq> [] \<longrightarrow> isl (lookup (root st') (segments scratch)))"
proof -
  obtain dependency parsed_version where g: "getDependencyAndVersion depQuery = (dependency, parsed_version)"
    by (cases "getDependencyAndVersion depQuery")
  define version where "version = (case parsed_version of None \<Rightarrow> ''latest'' | Some v \<Rightarrow> v)"
  define location where "location = hash_sum env (dependency @ ''@'' @ version)"
  from downloadDependencyTypings_state [OF g, of env st] assms
  have f: "st' = rimraf_sync (''/tmp/'' @ location)
                   (snd (execSync env (install_command dependency version location) st))"
    unfolding version_def location_def by (simp add: Let_def)
  have tr: "trace st' = trace st @ [Exec (install_command dependency version location),
                                    Rimraf (''/tmp/'' @ location)]"
    unfolding f by (simp add: rimraf_sync_def trace_execSync)
  have gone: "segments (''/tmp/'' @ location) \<noteq> []
      \<longrightarrow> isl (lookup (root st') (segments (''/tmp/'' @ location)))"
    unfolding f by (simp add: rimraf_sync_def lookup_removed(1))
  from tr gone show ?thesis
    unfolding g version_def location_def by (simp add: Let_def)
qed

text \<open>
  Four runs that are left: with a result, after a failed install, with a manifest that
  cannot be read, and after a scan that fails on a broken link.
\<close>

lemma exit_paths_remove_scratch:
  "map_option isl (fst (downloadDependencyTypings (world True demo_modules) ''demo'' fresh_state)) = Some False"
  "trace (snd (downloadDependencyTypings (world True demo_modules) ''demo'' fresh_state))
      = [Exec ''cd /tmp && mkdir 0a1b2c3d && cd 0a1b2c3d && HOME=/tmp npm i --production demo@latest --no-save'',
         Rimraf ''/tmp/0a1b2c3d'']"
  "fst (downloadDependencyTypings (world False []) ''demo'' fresh_state) = Some (Inl CommandFailed)"
  "trace (snd (downloadDependencyTypings (world False []) ''demo'' fresh_state))
      = [Exec ''cd /tmp && mkdir 0a1b2c3d && cd 0a1b2c3d && HOME=/tmp npm i --production demo@latest --no-save'',
         Rimraf ''/tmp/0a1b2c3d'']"
  "fst (downloadDependencyTypings (world True []) ''demo'' fresh_state) = Some (Inl ENOENT)"
  "trace (snd (downloadDependencyTypings (world True []) ''demo'' fresh_state))
      = [Exec ''cd /tmp && mkdir 0a1b2c3d && cd 0a1b2c3d && HOME=/tmp npm i --production demo@latest --no-save'',
         Rimraf ''/tmp/0a1b2c3d'']"
  "fst (downloadDependencyTypings (world True broken_modules) ''demo'' fresh_state) = Some (Inl ENOENT)"
  "trace (snd (downloadDependencyTypings (world True broken_modules) ''demo'' fresh_state))
      = [Exec ''cd /tmp && mkdir 0a1b2c3d && cd 0a1b2c3d && HOME=/tmp npm i --production demo@latest --no-save'',
         Rimraf ''/tmp/0a1b2c3d'']"
  by code_simp+

section \<open>The pipeline: the entries of a result\<close>

lemma replace_prefix: "replace (p @ s) p [] = s"
proof (cases "p @ s")
  case Nil
  then show ?thesis by simp
next
  case (Cons a l)
  have "prefix p (a # l)" unfolding Cons [symmetric] by simp
  then have "replace (a # l) p [] = drop (length p) (a # l)" by simp
  also have "\<dots> = s" unfolding Cons [symmetric] by simp
  finally show ?thesis unfolding Cons .
qed

lemma fold_obj_set_entries:
  "(k, v) \<in> set (fold (\<lambda>n t. obj_set t (f n) (g n)) ns t0)
     \<Longrightarrow> (k, v) \<in> set t0 \<or> (\<exists>n \<in> set ns. k = f n \<and> v = g n)"
proof (induction ns arbitrary: t0)
  case Nil
  then show ?case by simp
next
  case (Cons n ns)
  from Cons.prems have "(k, v) \<in> set (fold (\<lambda>n t. obj_set t (f n) (g n)) ns (obj_set t0 (f n) (g n)))"
    by simp
  from Cons.IH [OF this] show ?case using set_obj_set [of t0 "f n" "g n"] by auto
qed

lemma obj_get_member: "p \<in> set (keys fm) \<Longrightarrow> (p, obj_get fm p) \<in> set fm"
proof -
  assume "p \<in> set (keys fm)"
  then obtain w where "map_of fm p = Some w"
    by (cases "map_of fm p") (auto simp: keys_def map_of_eq_None_iff)
  then show ?thesis by (auto simp: obj_get_def dest: map_of_SomeD)
qed

lemma fold_keep_entries:
  "(k, v) \<in> set (fold (\<lambda>p acc. if c p then obj_set acc p (g p) else acc) ps acc0)
     \<Longrightarrow> (k, v) \<in> set acc0 \<or> (k \<in> set ps \<and> v = g k)"
proof (induction ps arbitrary: acc0)
  case Nil
  then show ?case by simp
next
  case (Cons p ps)
  show ?case
  proof (cases "c p")
    case True
    with Cons.prems have
      "(k, v) \<in> set (fold (\<lambda>p acc. if c p then obj_set acc p (g p) else acc) ps (obj_set acc0 p (g p)))"
      by simp
    from Cons.IH [OF this] show ?thesis using set_obj_set [of acc0 p "g p"] by auto
  next
    case False
    with Cons.prems have
      "(k, v) \<in> set (fold (\<lambda>p acc. if c p then obj_set acc p (g p) else acc) ps acc0)"
      by simp
    from Cons.IH [OF this] show ?thesis by auto
  qed
qed

lemma set_cleanFiles: "set (cleanFiles fm) \<subseteq> set fm"
proof
  fix kv
  assume a: "kv \<in> set (cleanFiles fm)"
  obtain k v where kv: "kv = (k, v)" by (cases kv)
  from a have "(k, v) \<in> set (fold (\<lambda>p acc.
      if endsWith p ''.ts'' \<or> array_indexOf (validDependencies fm) p > -1
      then obj_set acc p (obj_get fm p) else acc) (keys fm) [])"
    by (simp add: cleanFiles_def kv Let_def)
  from fold_keep_entries [OF this] have "k \<in> set (keys fm) \<and> v = obj_get fm k" by simp
  then show "kv \<in> set fm" using obj_get_member kv by simp
qed

lemma extractFiles_Inr:
  assumes "extractFiles env d v loc st = (Inr extracted, st1)"
  shows "extracted = [] \<or>
     (\<exists>nd found. lookup (root st1) (segments (''/tmp/'' @ loc @ ''/node_modules'')) = Inr nd
        \<and> readDirectory (''/tmp/'' @ loc @ ''/node_modules'') nd = Inr found
        \<and> extracted = cleanFiles found)"
  using assms unfolding extractFiles_def
  by (auto simp: Let_def split: prod.splits sum.splits if_splits)

lemma set_dropFiles: "dropFiles fm = Some (cleaned, dropped) \<Longrightarrow> set cleaned \<subseteq> set fm"
proof (cases fm)
  case Nil
  assume "dropFiles fm = Some (cleaned, dropped)"
  with Nil show ?thesis by (simp add: dropFiles_Nil)
next
  case (Cons p rest)
  assume a: "dropFiles fm = Some (cleaned, dropped)"
  obtain k v where "p = (k, v)" by (cases p)
  with a Cons show ?thesis by (auto simp: dropFiles_Cons split: if_splits)
qed

text \<open>
  C9, as the code has it. In every result the pipeline returns, each entry stands for a
  regular file of the installed tree below \<open>node_modules\<close>: its key is the path of that
  file with the prefix \<open>/tmp/<id>/node_modules\<close> stripped, and its value is the object
  \<open>{ module: { code: s } }\<close>, where \<open>s\<close> is the content of the file.
\<close>

theorem result_entries_are_scanned_files:
  assumes "downloadDependencyTypings env depQuery st = (Some (Inr r), st')"
    and "(k, v) \<in> set (files r)"
  shows "let (dependency, parsed_version) = getDependencyAndVersion depQuery;
             version = (case parsed_version of None \<Rightarrow> ''latest'' | Some v \<Rightarrow> v);
             location = hash_sum env (dependency @ ''@'' @ version);
             dependencyPath = ''/tmp/'' @ location @ ''/node_modules'';
             disk = snd (run env (install_command dependency version location) (root st))
         in \<exists>nd names content.
              lookup disk (segments dependencyPath) = Inr nd
              \<and> is_file_at nd names content
              \<and> dependencyPath @ k = below dependencyPath names
              \<and> v = Obj [(''module'', Obj [(''code'', Str content)])]"
proof -
  obtain dependency parsed_version where g: "getDependencyAndVersion depQuery = (dependency, parsed_version)"
    by (cases "getDependencyAndVersion depQuery")
  define version where "version = (case parsed_version of None \<Rightarrow> ''latest'' | Some v \<Rightarrow> v)"
  define location where "location = hash_sum env (dependency @ ''@'' @ version)"
  define dependencyPath where "dependencyPath = ''/tmp/'' @ location @ ''/node_modules''"
  from assms(1) obtain st1 where
    t: "try_block env dependency version location st = (Some (Inr r), st1)"
    unfolding downloadDependencyTypings_def g version_def location_def
    by (auto simp: Let_def split: option.splits prod.splits)
  from try_block_state [of env dependency version location st] t have
    s1: "root st1 = snd (run env (install_command dependency version location) (root st))"
    by (simp add: root_execSync)
  obtain res st2 where e: "extractFiles env dependency version location st = (res, st2)"
    by (cases "extractFiles env dependency version location st")
  define fwp where "fwp = fold (\<lambda>n t. obj_set t (replace n dependencyPath [])
                                     (Obj [(''module'', obj_get (projr res) n)]))
                        (keys (projr res)) []"
  from t e assms(2) obtain extracted where
    ex: "res = Inr extracted" and st: "st2 = st1"
    and sub: "set (files r) \<subseteq> set fwp"
    unfolding try_block_def fwp_def dependencyPath_def
    by (cases res)
       (auto simp: Let_def split: if_splits option.splits dest: set_dropFiles)
  from sub assms(2) have "(k, v) \<in> set fwp" by auto
  from fold_obj_set_entries [OF this [unfolded fwp_def]] ex obtain n where
    n: "n \<in> set (keys extracted)" "k = replace n dependencyPath []"
       "v = Obj [(''module'', obj_get extracted n)]"
    by auto
  from n(1) have ne: "extracted \<noteq> []" by (auto simp: keys_def)
  from extractFiles_Inr [OF e [unfolded ex st]] ne obtain nd found where
    f: "lookup (root st1) (segments dependencyPath) = Inr nd"
       "readDirectory dependencyPath nd = Inr found"
       "extracted = cleanFiles found"
    unfolding dependencyPath_def by blast
  from obj_get_member [OF n(1)] have "(n, obj_get extracted n) \<in> set found"
    using set_cleanFiles f(3) by blast
  from scan_routes(1) [OF f(2) this] obtain names content where
    h: "n = below dependencyPath names" "obj_get extracted n = Obj [(''code'', Str content)]"
       "is_file_at nd names content"
    unfolding scanned_def by blast
  have "k = below [] names"
    unfolding n(2) h(1) below_def by (simp add: replace_prefix)
  then have "dependencyPath @ k = below dependencyPath names"
    by (simp add: below_def)
  with f(1) h n(3) s1 have
    "\<exists>nd names content.
        lookup (snd (run env (install_command dependency version location) (root st)))
          (segments dependencyPath) = Inr nd
        \<and> is_file_at nd names content
        \<and> dependencyPath @ k = below dependencyPath names
        \<and> v = Obj [(''module'', Obj [(''code'', Str content)])]"
    by auto
  then show ?thesis
    unfolding g version_def location_def dependencyPath_def by (simp add: Let_def)
qed


theorem result_entries_are_scanned_files_witness:
  "\<exists>nd names content.
      lookup (installed demo_modules) [''tmp'', ''0a1b2c3d'', ''node_modules''] = Inr nd
      \<and> is_file_at nd names content
      \<and> ''/tmp/0a1b2c3d/node_modules/demo/index.d.ts''
            = below ''/tmp/0a1b2c3d/node_modules'' names
      \<and> Obj [(''module'', Obj [(''code'', Str ''export {};'')])]
            = Obj [(''module'', Obj [(''code'', Str content)])]"
proof -
  have h: \<open>downloadDependencyTypings (world True demo_modules) ''demo'' fresh_state
      = (Some (Inr \<lparr>files =
            [(''/demo/package.json'',
                Obj [(''module'', Obj [(''code'', Str ''{"name":"demo","types":"index.d.ts"}'')])]),
             (''/demo/index.d.ts'',
                Obj [(''module'', Obj [(''code'', Str ''export {};'')])]),
             (''/demo/src/util.d.ts'',
                Obj [(''module'', Obj [(''code'', Str ''declare let x: number;'')])])],
          droppedFileCount = None\<rparr>),
              \<lparr>root = Dir [(''tmp'', Dir [])],
               trace = [Exec ''cd /tmp && mkdir 0a1b2c3d && cd 0a1b2c3d && HOME=/tmp npm i --production demo@latest --no-save'',
                        Rimraf ''/tmp/0a1b2c3d'']\<rparr>)\<close>
    by code_simp
  have m: \<open>(''/demo/index.d.ts'', Obj [(''module'', Obj [(''code'', Str ''export {};'')])])
      \<in> set (files \<lparr>files =
            [(''/demo/package.json'',
                Obj [(''module'', Obj [(''code'', Str ''{"name":"demo","types":"index.d.ts"}'')])]),
             (''/demo/index.d.ts'',
                Obj [(''module'', Obj [(''code'', Str ''export {};'')])]),
             (''/demo/src/util.d.ts'',
                Obj [(''module'', Obj [(''code'', Str ''declare let x: number;'')])])],
          droppedFileCount = None\<rparr>)\<close>
    by simp
  have g: "getDependencyAndVersion ''demo'' = (''demo'', Some ''latest'')"
    by (simp add: getDependencyAndVersion_def)
  from result_entries_are_scanned_files [OF h m] show ?thesis
    by (simp add: g world_def fresh_state_def install_command_def segments_def Let_def)
qed

text \<open>
  C9, as the claim states it, fails: the value stored for \<open>/demo/index.d.ts\<close> is not
  \<open>{ module: s }\<close> for the content \<open>s\<close> of that file; the content lies one object
  deeper, under \<open>code\<close>.
\<close>

theorem result_value_wraps_code:
  \<open>fst (downloadDependencyTypings (world True demo_modules) ''demo'' fresh_state)
     = Some (Inr \<lparr>files =
            [(''/demo/package.json'',
                Obj [(''module'', Obj [(''code'', Str ''{"name":"demo","types":"index.d.ts"}'')])]),
             (''/demo/index.d.ts'',
                Obj [(''module'', Obj [(''code'', Str ''export {};'')])]),
             (''/demo/src/util.d.ts'',
                Obj [(''module'', Obj [(''code'', Str ''declare let x: number;'')])])],
          droppedFileCount = None\<rparr>)
   \<and> readFileSync (installed demo_modules) ''/tmp/0a1b2c3d/node_modules/demo/index.d.ts''
       = Inr ''export {};''
   \<and> Obj [(''module'', Obj [(''code'', Str ''export {};'')])]
       \<noteq> Obj [(''module'', Str ''export {};'')]\<close>
proof -
  have \<open>fst (downloadDependencyTypings (world True demo_modules) ''demo'' fresh_state)
     = Some (Inr \<lparr>files =
            [(''/demo/package.json'',
                Obj [(''module'', Obj [(''code'', Str ''{"name":"demo","types":"index.d.ts"}'')])]),
             (''/demo/index.d.ts'',
                Obj [(''module'', Obj [(''code'', Str ''export {};'')])]),
             (''/demo/src/util.d.ts'',
                Obj [(''module'', Obj [(''code'', Str ''declare let x: number;'')])])],
          droppedFileCount = None\<rparr>)\<close>
    by code_simp
  moreover have
    "readFileSync (installed demo_modules) ''/tmp/0a1b2c3d/node_modules/demo/index.d.ts''
       = Inr ''export {};''"
    by code_simp
  ultimately show ?thesis by simp
qed

section \<open>PackageMaterializer: a manifest that does not parse\<close>

lemma JSON_parse_error: "JSON_parse s = Inl e \<Longrightarrow> e = SyntaxError"
  by (auto simp: JSON_parse_def split: option.splits prod.splits if_splits)

text \<open>
  C5, as the code has it. After a successful install, with a manifest that can be read:
  if parsing the manifest fails, \<open>extractFiles\<close> throws the syntax error, whatever the
  name of the dependency, and returns nothing; it returns the empty mapping when the
  manifest parses, neither \<open>types\<close> nor \<open>typings\<close> is truthy, and the name does not
  begin with \<open>@types/\<close>.
\<close>

theorem extractFiles_manifest_parse:
  assumes "execSync env (install_command dependency version location) st = (Inr (), st1)"
    and "readFileSync (root st1)
           (''/tmp/'' @ location @ ''/node_modules/'' @ dependency @ ''/package.json'')
         = Inr content"
  shows "(\<forall>e. JSON_parse content = Inl e \<longrightarrow>
            extractFiles env dependency version location st = (Inl SyntaxError, st1))
       \<and> (\<forall>pkg. JSON_parse content = Inr pkg
              \<and> either_prop pkg ''types'' ''typings'' = Inr False
              \<and> \<not> startsWith dependency ''@types/''
            \<longrightarrow> extractFiles env dependency version location st = (Inr [], st1))"
proof (intro conjI allI impI)
  fix e
  assume "JSON_parse content = Inl e"
  moreover from this have "e = SyntaxError" by (rule JSON_parse_error)
  ultimately show "extractFiles env dependency version location st = (Inl SyntaxError, st1)"
    using assms by (simp add: extractFiles_def Let_def)
next
  fix pkg
  assume "JSON_parse content = Inr pkg
              \<and> either_prop pkg ''types'' ''typings'' = Inr False
              \<and> \<not> startsWith dependency ''@types/''"
  then show "extractFiles env dependency version location st = (Inr [], st1)"
    using assms by (simp add: extractFiles_def Let_def)
qed

theorem extractFiles_manifest_parse_witness:
  \<open>extractFiles (world True malformed_modules) ''demo'' ''latest'' ''0a1b2c3d'' fresh_state
     = (Inl SyntaxError,
        \<lparr>root = installed malformed_modules,
         trace = [Exec (install_command ''demo'' ''latest'' ''0a1b2c3d'')]\<rparr>)
   \<and> extractFiles (world True untyped_modules) ''demo'' ''latest'' ''0a1b2c3d'' fresh_state
     = (Inr [],
        \<lparr>root = installed untyped_modules,
         trace = [Exec (install_command ''demo'' ''latest'' ''0a1b2c3d'')]\<rparr>)\<close>
proof -
  have x1: "execSync (world True malformed_modules) (install_command ''demo'' ''latest'' ''0a1b2c3d'')
              fresh_state
            = (Inr (), \<lparr>root = installed malformed_modules,
                        trace = [Exec (install_command ''demo'' ''latest'' ''0a1b2c3d'')]\<rparr>)"
    by (simp add: execSync_def world_def fresh_state_def)
  have r1: \<open>readFileSync (root \<lparr>root = installed malformed_modules,
                        trace = [Exec (install_command ''demo'' ''latest'' ''0a1b2c3d'')]\<rparr>)
           (''/tmp/'' @ ''0a1b2c3d'' @ ''/node_modules/'' @ ''demo'' @ ''/package.json'')
         = Inr ''{"name":"demo",''\<close>
    by code_simp
  have p1: \<open>JSON_parse ''{"name":"demo",'' = Inl SyntaxError\<close>
    by code_simp
  have x2: "execSync (world True untyped_modules) (install_command ''demo'' ''latest'' ''0a1b2c3d'')
              fresh_state
            = (Inr (), \<lparr>root = installed untyped_modules,
                        trace = [Exec (install_command ''demo'' ''latest'' ''0a1b2c3d'')]\<rparr>)"
    by (simp add: execSync_def world_def fresh_state_def)
  have r2: \<open>readFileSync (root \<lparr>root = installed untyped_modules,
                        trace = [Exec (install_command ''demo'' ''latest'' ''0a1b2c3d'')]\<rparr>)
           (''/tmp/'' @ ''0a1b2c3d'' @ ''/node_modules/'' @ ''demo'' @ ''/package.json'')
         = Inr ''{"name":"demo"}''\<close>
    by code_simp
  have p2: \<open>JSON_parse ''{"name":"demo"}'' = Inr (JObject [(map of_char ''name'', JString (map of_char ''demo''))])\<close>
    by code_simp
  have t2: "either_prop (JObject [(map of_char ''name'', JString (map of_char ''demo''))])
              ''types'' ''typings'' = Inr False"
    by code_simp
  have s2: "\<not> startsWith ''demo'' ''@types/''"
    by (simp add: startsWith_def)
  from extractFiles_manifest_parse [OF x1 r1] p1
    extractFiles_manifest_parse [OF x2 r2] p2 t2 s2
  show ?thesis by blast
qed

text \<open>
  C5, as the claim states it, fails: for the dependency \<open>demo\<close>, which is not in the types
  scope, a manifest that is not JSON makes \<open>extractFiles\<close> throw instead of returning the
  empty mapping.
\<close>

theorem extractFiles_malformed_manifest_throws:
  \<open>readFileSync (installed malformed_modules) ''/tmp/0a1b2c3d/node_modules/demo/package.json''
     = Inr ''{"name":"demo",''
   \<and> JSON_parse ''{"name":"demo",'' = Inl SyntaxError
   \<and> \<not> startsWith ''demo'' ''@types/''
   \<and> fst (extractFiles (world True malformed_modules) ''demo'' ''latest'' ''0a1b2c3d'' fresh_state)
       = Inl SyntaxError
   \<and> fst (extractFiles (world True malformed_modules) ''demo'' ''latest'' ''0a1b2c3d'' fresh_state)
       \<noteq> Inr []\<close>
proof -
  have \<open>readFileSync (installed malformed_modules) ''/tmp/0a1b2c3d/node_modules/demo/package.json''
     = Inr ''{"name":"demo",''\<close>
    by code_simp
  moreover have \<open>JSON_parse ''{"name":"demo",'' = Inl SyntaxError\<close>
    by code_simp
  moreover have "\<not> startsWith ''demo'' ''@types/''"
    by (simp add: startsWith_def)
  moreover have
    "fst (extractFiles (world True malformed_modules) ''demo'' ''latest'' ''0a1b2c3d'' fresh_state)
       = Inl SyntaxError"
    by code_simp
  ultimately show ?thesis by simp
qed

section \<open>ManifestCleaner: the manifests of a scanned tree\<close>

lemma JSON_parse_object_string: "JSON_parse ''[object Object]'' = Inl SyntaxError"
  by code_simp

text \<open>
  The scanner stores objects, and \<open>JSON.parse\<close> of an object reads the text
  \<open>[object Object]\<close>: on a scanned mapping the test of the \<open>types\<close> and \<open>typings\<close>
  fields always ends in the \<open>catch\<close> block.
\<close>

lemma declares_types_of_object:
  "obj_get fm p = Obj ps \<Longrightarrow> declares_types fm p = Inl SyntaxError"
  by (simp add: declares_types_def to_string_def JSON_parse_object_string)

lemma keys_obj_set_list:
  "keys (obj_set t k v) = (if k \<in> set (keys t) then keys t else keys t @ [k])"
  by (induction t) (force simp: keys_def)+

lemma keys_obj_set: "set (keys (obj_set t k v)) = insert k (set (keys t))"
  by (auto simp: keys_obj_set_list)

lemma keys_fold_keep:
  "set (keys (fold (\<lambda>p acc. if c p then obj_set acc p (g p) else acc) ps acc0))
     = set (keys acc0) \<union> {p \<in> set ps. c p}"
proof (induction ps arbitrary: acc0)
  case Nil
  show ?case by simp
next
  case (Cons p ps)
  show ?case by (cases "c p") (auto simp: Cons.IH keys_obj_set)
qed

lemma manifest_not_source: "endsWith p ''/package.json'' \<Longrightarrow> \<not> endsWith p ''.ts''"
  by (auto simp: endsWith_def suffix_def)

text \<open>
  So on a mapping whose values are objects, as the scanner's are, a manifest is kept
  exactly when some collected path begins with its directory and ends in \<open>.ts\<close>; what
  the manifest declares has no part in it.
\<close>

lemma cleanFiles_scanned_manifest:
  assumes "\<forall>kv \<in> set fm. \<exists>ps. snd kv = Obj ps"
    and "endsWith p ''/package.json''"
  shows "p \<in> set (keys (cleanFiles fm)) \<longleftrightarrow>
           p \<in> set (keys fm)
           \<and> list_ex (\<lambda>q. startsWith q (dirname p) \<and> endsWith q ''.ts'') (keys fm)"
proof -
  have d: "declares_types fm p = Inl SyntaxError" if "p \<in> set (keys fm)"
  proof -
    from obj_get_member [OF that] assms(1) obtain ps where "obj_get fm p = Obj ps"
      by fastforce
    then show ?thesis by (rule declares_types_of_object)
  qed
  have v: "p \<in> set (validDependencies fm) \<longleftrightarrow>
             p \<in> set (keys fm)
             \<and> list_ex (\<lambda>q. startsWith q (dirname p) \<and> endsWith q ''.ts'') (keys fm)"
    using assms(2) d by (auto simp: validDependencies_def Let_def)
  have "p \<in> set (keys (cleanFiles fm)) \<longleftrightarrow>
          p \<in> set (keys fm) \<and> (endsWith p ''.ts'' \<or> p \<in> set (validDependencies fm))"
    by (simp add: cleanFiles_def Let_def keys_fold_keep array_indexOf_present) (simp add: keys_def)
  with v manifest_not_source [OF assms(2)] show ?thesis by auto
qed

lemma scanned_values_are_objects:
  "readDirectory location n = Inr found \<Longrightarrow> \<forall>kv \<in> set found. \<exists>ps. snd kv = Obj ps"
proof
  fix kv
  assume r: "readDirectory location n = Inr found" and m: "kv \<in> set found"
  obtain k v where kv: "kv = (k, v)" by (cases kv)
  from scan_routes(1) [OF r m [unfolded kv]] show "\<exists>ps. snd kv = Obj ps"
    by (auto simp: scanned_def kv)
qed

text \<open>
  C4, at a mapping the scanner produces. The manifest of \<open>typed\<close> declares \<open>types\<close>,
  and no collected path below its directory ends in \<open>.ts\<close>: \<open>cleanFiles\<close> drops it,
  although its parsed content declares the field. The manifest of \<open>plain\<close>, which
  declares nothing, is kept for the declaration file beside it.
\<close>

theorem cleanFiles_drops_declaring_manifest:
  \<open>readDirectory ''/tmp/0a1b2c3d/node_modules'' (Dir typed_modules)
     = Inr [(''/tmp/0a1b2c3d/node_modules/typed/package.json'',
               Obj [(''code'', Str ''{"types":"lib/index.d.mts"}'')]),
            (''/tmp/0a1b2c3d/node_modules/plain/package.json'',
               Obj [(''code'', Str ''{"name":"plain"}'')]),
            (''/tmp/0a1b2c3d/node_modules/plain/index.d.ts'',
               Obj [(''code'', Str ''export {};'')])]
   \<and> JSON_parse ''{"types":"lib/index.d.mts"}''
       = Inr (JObject [(map of_char ''types'', JString (map of_char ''lib/index.d.mts''))])
   \<and> either_prop (JObject [(map of_char ''types'', JString (map of_char ''lib/index.d.mts''))])
         ''typings'' ''types'' = Inr True
   \<and> cleanFiles
         [(''/tmp/0a1b2c3d/node_modules/typed/package.json'',
             Obj [(''code'', Str ''{"types":"lib/index.d.mts"}'')]),
          (''/tmp/0a1b2c3d/node_modules/plain/package.json'',
             Obj [(''code'', Str ''{"name":"plain"}'')]),
          (''/tmp/0a1b2c3d/node_modules/plain/index.d.ts'',
             Obj [(''code'', Str ''export {};'')])]
       = [(''/tmp/0a1b2c3d/node_modules/plain/package.json'',
             Obj [(''code'', Str ''{"name":"plain"}'')]),
          (''/tmp/0a1b2c3d/node_modules/plain/index.d.ts'',
             Obj [(''code'', Str ''export {};'')])]\<close>
proof -
  have \<open>readDirectory ''/tmp/0a1b2c3d/node_modules'' (Dir typed_modules)
     = Inr [(''/tmp/0a1b2c3d/node_modules/typed/package.json'',
               Obj [(''code'', Str ''{"types":"lib/index.d.mts"}'')]),
            (''/tmp/0a1b2c3d/node_modules/plain/package.json'',
               Obj [(''code'', Str ''{"name":"plain"}'')]),
            (''/tmp/0a1b2c3d/node_modules/plain/index.d.ts'',
               Obj [(''code'', Str ''export {};'')])]\<close>
    by code_simp
  moreover have \<open>JSON_parse ''{"types":"lib/index.d.mts"}''
       = Inr (JObject [(map of_char ''types'', JString (map of_char ''lib/index.d.mts''))])\<close>
    by code_simp
  moreover have
    "either_prop (JObject [(map of_char ''types'', JString (map of_char ''lib/index.d.mts''))])
         ''typings'' ''types'' = Inr True"
    by code_simp
  moreover have \<open>cleanFiles
         [(''/tmp/0a1b2c3d/node_modules/typed/package.json'',
             Obj [(''code'', Str ''{"types":"lib/index.d.mts"}'')]),
          (''/tmp/0a1b2c3d/node_modules/plain/package.json'',
             Obj [(''code'', Str ''{"name":"plain"}'')]),
          (''/tmp/0a1b2c3d/node_modules/plain/index.d.ts'',
             Obj [(''code'', Str ''export {};'')])]
       = [(''/tmp/0a1b2c3d/node_modules/plain/package.json'',
             Obj [(''code'', Str ''{"name":"plain"}'')]),
          (''/tmp/0a1b2c3d/node_modules/plain/index.d.ts'',
             Obj [(''code'', Str ''export {};'')])]\<close>
    by code_simp
  ultimately show ?thesis by (intro conjI)
qed

section \<open>ScratchReaper: a run that is never left\<close>

text \<open>
  An error of the install, of the manifest or of the scan leaves the \<open>try\<close> body, so
  the \<open>finally\<close> clause runs; the one way not to leave it is the budgeting loop.
\<close>

lemma error_leaves_try_block:
  "fst (extractFiles env d v loc st) = Inl e \<Longrightarrow> fst (try_block env d v loc st) = Some (Inl e)"
  by (cases "extractFiles env d v loc st") (simp add: try_block_def Let_def)

lemma big_extract:
  \<open>extractFiles (world True (big_modules content)) ''big'' ''latest'' ''0a1b2c3d'' fresh_state
     = (Inr [(''/tmp/0a1b2c3d/node_modules/big/package.json'',
               Obj [(''code'', Str ''{"types":"index.d.ts"}'')]),
            (''/tmp/0a1b2c3d/node_modules/big/a.d.ts'',
               Obj [(''code'', Str ''export {};'')]),
            (''/tmp/0a1b2c3d/node_modules/big/index.d.ts'',
               Obj [(''code'', Str content)])],
        \<lparr>root = installed (big_modules content),
          trace = [Exec ''cd /tmp && mkdir 0a1b2c3d && cd 0a1b2c3d && HOME=/tmp npm i --production big@latest --no-save'']\<rparr>)\<close>
  by code_simp

lemma big_has_sources:
  \<open>list_ex test_tsx (keys [(''/tmp/0a1b2c3d/node_modules/big/package.json'',
               Obj [(''code'', Str ''{"types":"index.d.ts"}'')]),
            (''/tmp/0a1b2c3d/node_modules/big/a.d.ts'',
               Obj [(''code'', Str ''export {};'')]),
            (''/tmp/0a1b2c3d/node_modules/big/index.d.ts'',
               Obj [(''code'', Str content)])])\<close>
  by code_simp

lemma big_stripped:
  \<open>fold (\<lambda>n t. obj_set t (replace n (''/tmp/'' @ ''0a1b2c3d'' @ ''/node_modules'') [])
                  (Obj [(''module'', obj_get [(''/tmp/0a1b2c3d/node_modules/big/package.json'',
               Obj [(''code'', Str ''{"types":"index.d.ts"}'')]),
            (''/tmp/0a1b2c3d/node_modules/big/a.d.ts'',
               Obj [(''code'', Str ''export {};'')]),
            (''/tmp/0a1b2c3d/node_modules/big/index.d.ts'',
               Obj [(''code'', Str content)])] n)]))
     (keys [(''/tmp/0a1b2c3d/node_modules/big/package.json'',
               Obj [(''code'', Str ''{"types":"index.d.ts"}'')]),
            (''/tmp/0a1b2c3d/node_modules/big/a.d.ts'',
               Obj [(''code'', Str ''export {};'')]),
            (''/tmp/0a1b2c3d/node_modules/big/index.d.ts'',
               Obj [(''code'', Str content)])]) []
   = [(''/big/package.json'',
               Obj [(''module'', Obj [(''code'', Str ''{"types":"index.d.ts"}'')])]),
            (''/big/a.d.ts'',
               Obj [(''module'', Obj [(''code'', Str ''export {};'')])]),
            (''/big/index.d.ts'',
               Obj [(''module'', Obj [(''code'', Str content)])])]\<close>
  by code_simp

lemma MAX_RES_SIZE_less: "(MAX_RES_SIZE < real n) = (6081741 \<le> n)"
proof -
  have "(MAX_RES_SIZE < real n) = (real 30408704 < real (n * 5))"
    by (simp add: MAX_RES_SIZE_def)
  also have "\<dots> = (30408704 < n * 5)" by (rule of_nat_less_iff)
  also have "\<dots> = (6081741 \<le> n)" by arith
  finally show ?thesis .
qed

lemma big_over_ceiling:
  assumes "7000000 \<le> length content"
  shows \<open>real (length (JSON_stringify [(''status'', Str ''ok''), (''files'', Obj [(''/big/package.json'',
               Obj [(''module'', Obj [(''code'', Str ''{"types":"index.d.ts"}'')])]),
            (''/big/a.d.ts'',
               Obj [(''module'', Obj [(''code'', Str ''export {};'')])]),
            (''/big/index.d.ts'',
               Obj [(''module'', Obj [(''code'', Str content)])])])]))
           > MAX_RES_SIZE\<close>
proof -
  have \<open>length content \<le> length (JSON_stringify [(''status'', Str ''ok''), (''files'', Obj [(''/big/package.json'',
               Obj [(''module'', Obj [(''code'', Str ''{"types":"index.d.ts"}'')])]),
            (''/big/a.d.ts'',
               Obj [(''module'', Obj [(''code'', Str ''export {};'')])]),
            (''/big/index.d.ts'',
               Obj [(''module'', Obj [(''code'', Str content)])])])])\<close>
    using length_quote [of content] by (simp add: JSON_stringify_def)
  with assms show ?thesis by (simp only: MAX_RES_SIZE_less)
qed

lemma big_first_small:
  \<open>dropFiles [(''/big/package.json'',
               Obj [(''module'', Obj [(''code'', Str ''{"types":"index.d.ts"}'')])]),
            (''/big/a.d.ts'',
               Obj [(''module'', Obj [(''code'', Str ''export {};'')])]),
            (''/big/index.d.ts'',
               Obj [(''module'', Obj [(''code'', Str content)])])] = None\<close>
proof -
  have \<open>real (length (JSON_stringify
            [(''/big/package.json'',
               Obj [(''module'', Obj [(''code'', Str ''{"types":"index.d.ts"}'')])])]))
          < MAX_RES_SIZE\<close>
    by (simp add: JSON_stringify_def quote_def escape_char_def MAX_RES_SIZE_def)
  then show ?thesis by (simp add: dropFiles_Cons)
qed

lemma budgeting_hangs:
  assumes "7000000 \<le> length content"
  shows \<open>try_block (world True (big_modules content)) ''big'' ''latest'' ''0a1b2c3d'' fresh_state
     = (None, \<lparr>root = installed (big_modules content),
          trace = [Exec ''cd /tmp && mkdir 0a1b2c3d && cd 0a1b2c3d && HOME=/tmp npm i --production big@latest --no-save'']\<rparr>)\<close>
  unfolding try_block_def big_extract Let_def prod.case sum.case big_stripped
  using big_has_sources [of content] big_over_ceiling [OF assms] big_first_small [of content]
  by simp

text \<open>
  C3, at a world the pipeline can meet. The package \<open>big\<close> holds a small declaration
  file and one of 7000000 characters: the result is above the ceiling, the budgeting
  loop does not end, and the call is never left. The install command has run and
  nothing has removed the scratch directory: it is still there, with the installed tree.
\<close>

theorem scratch_left_when_budgeting_hangs:
  "downloadDependencyTypings (world True (big_modules (replicate 7000000 CHR ''a''))) ''big''
     fresh_state
   = (None,
      \<lparr>root = installed (big_modules (replicate 7000000 CHR ''a'')),
       trace = [Exec ''cd /tmp && mkdir 0a1b2c3d && cd 0a1b2c3d && HOME=/tmp npm i --production big@latest --no-save'']\<rparr>)
   \<and> lookup (installed (big_modules (replicate 7000000 CHR ''a''))) (segments ''/tmp/0a1b2c3d'')
       = Inr (Dir [(''node_modules'', Dir (big_modules (replicate 7000000 CHR ''a'')))])"
proof -
  have g: "getDependencyAndVersion ''big'' = (''big'', Some ''latest'')"
    by (simp add: getDependencyAndVersion_def)
  have "7000000 \<le> length (replicate 7000000 CHR ''a'')" by simp
  from budgeting_hangs [OF this]
  have "downloadDependencyTypings (world True (big_modules (replicate 7000000 CHR ''a''))) ''big''
     fresh_state
   = (None,
      \<lparr>root = installed (big_modules (replicate 7000000 CHR ''a'')),
       trace = [Exec ''cd /tmp && mkdir 0a1b2c3d && cd 0a1b2c3d && HOME=/tmp npm i --production big@latest --no-save'']\<rparr>)"
    unfolding downloadDependencyTypings_def g by (simp add: Let_def world_def)
  moreover have
    "lookup (installed (big_modules (replicate 7000000 CHR ''a''))) (segments ''/tmp/0a1b2c3d'')
       = Inr (Dir [(''node_modules'', Dir (big_modules (replicate 7000000 CHR ''a'')))])"
    by (simp add: installed_def segments_def)
  ultimately show ?thesis by (rule conjI)
qed

end
